theory Spec2Isabelle
  imports Complex_Main
begin

section \<open>The COM-LZ orbital simulation: numeric core\<close>

text \<open>
  A shallow embedding of the numeric functions of \<^verbatim>\<open>com_lz_orbital_simulation.py\<close>:
  \<^verbatim>\<open>com_lz_attractor_radius\<close>, \<^verbatim>\<open>resonance_potential\<close>, \<^verbatim>\<open>drift_acceleration\<close> and
  \<^verbatim>\<open>simulate_debris_drift\<close>.

  Python integers are \<^typ>\<open>int\<close>; the operator \<^verbatim>\<open>%\<close> with a positive divisor is the
  floor remainder, which is \<^term>\<open>(mod)\<close> on \<^typ>\<open>int\<close>.

  Python floats and numpy's \<^verbatim>\<open>float64\<close> are IEEE doubles. A finite double is read as the
  real number it stands for and an operation on finite doubles as the exact operation:
  the rounding of a result that stays inside the range of the doubles is not part of this
  model. Leaving the range is: where a result of the source can be too large for a
  finite double it becomes \<open>+inf\<close> (or an \<^verbatim>\<open>OverflowError\<close>, for Python's \<^verbatim>\<open>**\<close>), and a power
  too small for the smallest subnormal double becomes \<open>0\<close>. The statements proved below are
  chosen so that they do not depend on the rounding: bounds, tolerances, and what is
  returned or raised.
\<close>

subsection \<open>Constants\<close>

definition LZ :: real where
  "LZ = 123498288 / 100000000"

definition R_EARTH :: real where
  "R_EARTH = 6371"

subsection \<open>Errors\<close>

datatype error = ZeroDivisionError | OverflowError | IndexError | ValueError | IntegrationError

subsection \<open>The range of the doubles\<close>

text \<open>
  The largest finite double is \<^verbatim>\<open>(2 - 2**-52) * 2**1023\<close>. A result rounds to \<open>+inf\<close> from
  \<^verbatim>\<open>2**1024 - 2**970\<close> on, half way between the largest double and \<^verbatim>\<open>2**1024\<close>. A positive
  result rounds to \<open>0\<close> at and below \<^verbatim>\<open>2**-1075\<close>, half the smallest subnormal double.
\<close>

definition DBL_MAX :: real where
  "DBL_MAX = (2 ^ 53 - 1) * 2 ^ 971"

definition DBL_LIMIT :: real where
  "DBL_LIMIT = 2 ^ 1024 - 2 ^ 970"

definition DBL_TINY :: real where
  "DBL_TINY = 1 / 2 ^ 1075"

text \<open>
  A float that is finite or \<open>+inf\<close>. The quantities of the source held in this type (a
  radius, a distance, its square, a denominator) are never negative, so \<open>-inf\<close> does not
  occur, and \<open>nan\<close> does not occur either as long as the argument \<^verbatim>\<open>r\<close> of the potential
  is finite.
\<close>

datatype fval = Fin real | PInf

text \<open>The result of an operation whose exact value is \<open>x\<close>, not negative.\<close>

definition ovf :: "real \<Rightarrow> fval" where
  "ovf x = (if DBL_LIMIT \<le> x then PInf else Fin x)"

text \<open>
  The product of a float that is not negative with a finite positive float: \<open>+inf\<close> stays
  \<open>+inf\<close>.
\<close>

definition ftimes :: "fval \<Rightarrow> real \<Rightarrow> fval" where
  "ftimes a c = (case a of Fin x \<Rightarrow> ovf (x * c) | PInf \<Rightarrow> PInf)"

text \<open>
  The same bound as an integer, the least positive integer that does not convert to a
  double. Python converts an integer operand of a float operation to a double first and
  raises \<^verbatim>\<open>OverflowError\<close> from this size on, for either sign.
\<close>

definition INT_LIMIT :: int where
  "INT_LIMIT = 2 ^ 1024 - 2 ^ 970"

text \<open>
  Python's \<^verbatim>\<open>x ** n\<close> for a float \<open>x\<close> and an integer \<open>n\<close> of either sign: the integer power
  \<^term>\<open>x powi n\<close>. An exponent too large to convert raises \<^verbatim>\<open>OverflowError\<close>, a zero base
  with a negative exponent raises \<^verbatim>\<open>ZeroDivisionError\<close>, a result that rounds to an infinity
  raises \<^verbatim>\<open>OverflowError\<close>, and a result that underflows is \<open>0\<close> without an error. (The
  exponent is a Python integer, as in the lists \<^verbatim>\<open>[3, 5, 7]\<close> of the source; with a numpy
  integer the power is numpy's, which returns \<open>+inf\<close> where Python raises.)
\<close>

definition float_pow :: "real \<Rightarrow> int \<Rightarrow> error + real" where
  "float_pow x n =
     (if INT_LIMIT \<le> \<bar>n\<bar> then Inl OverflowError
      else if x = 0 \<and> n < 0 then Inl ZeroDivisionError
      else if DBL_LIMIT \<le> \<bar>x powi n\<bar> then Inl OverflowError
      else if \<bar>x powi n\<bar> \<le> DBL_TINY then Inr 0
      else Inr (x powi n))"

subsection \<open>The radius model\<close>

text \<open>
  \<^verbatim>\<open>octave_factor = ((n - 1) % 9 + 1) / 9\<close>: integer arithmetic, then a true division.
\<close>

definition octave_factor :: "int \<Rightarrow> real" where
  "octave_factor n = real_of_int ((n - 1) mod 9 + 1) / 9"

text \<open>
  \<^verbatim>\<open>base_radius = R_EARTH * (LZ ** n)\<close> is a product of Python floats, which is \<open>+inf\<close> when
  it leaves the range; so is the product with the modulation \<^verbatim>\<open>1 + 0.1 * np.sin(...)\<close>,
  a finite float between \<open>0.9\<close> and \<open>1.1\<close>.
\<close>

definition com_lz_attractor_radius :: "int \<Rightarrow> error + fval" where
  "com_lz_attractor_radius n =
     (case float_pow LZ n of
        Inl e \<Rightarrow> Inl e
      | Inr p \<Rightarrow>
          (let base_radius = ovf (R_EARTH * p);
               radius = ftimes base_radius (1 + 0.1 * sin (octave_factor n * 2 * pi))
           in Inr radius))"

subsection \<open>The potential field\<close>

text \<open>
  A value that \<^verbatim>\<open>resonance_potential\<close> receives as \<^verbatim>\<open>r\<close> is a finite float (the plotting
  code passes one) or a one-dimensional numpy array of finite floats (\<^verbatim>\<open>drift_acceleration\<close>
  passes the state vector plus or minus the step). Arithmetic with a float broadcasts over
  an array.
\<close>

datatype npval = Scalar real | Array "real list"

fun np_elems :: "npval \<Rightarrow> real list" where
  "np_elems (Scalar x) = [x]"
| "np_elems (Array xs) = xs"

text \<open>
  \<^verbatim>\<open>np.sum\<close> of a Python list of equally shaped values adds up every element of every
  entry; of the empty list it is \<open>0\<close>. The values added here lie between \<open>0\<close> and \<open>1\<close>.
\<close>

definition np_sum :: "npval list \<Rightarrow> real" where
  "np_sum vs = sum_list (concat (map np_elems vs))"

text \<open>
  Division by a float that is not negative, with the division by zero as an error value;
  a finite value divided by \<open>+inf\<close> is \<open>0\<close>.
\<close>

definition true_div :: "real \<Rightarrow> fval \<Rightarrow> error + real" where
  "true_div a b =
     (case b of
        Fin y \<Rightarrow> if y = 0 then Inl ZeroDivisionError else Inr (a / y)
      | PInf \<Rightarrow> Inr 0)"

text \<open>The first error of a list of results, or all their values.\<close>

fun collect :: "(error + 'a) list \<Rightarrow> error + 'a list" where
  "collect [] = Inr []"
| "collect (x # xs) =
     (case x of
        Inl e \<Rightarrow> Inl e
      | Inr v \<Rightarrow> (case collect xs of Inl e \<Rightarrow> Inl e | Inr vs \<Rightarrow> Inr (v # vs)))"

text \<open>
  \<^verbatim>\<open>abs(r - r_a)\<close> at one component of \<^verbatim>\<open>r\<close>: the difference with an infinite radius is
  \<open>-inf\<close> and its absolute value \<open>+inf\<close>.
\<close>

definition abs_diff :: "real \<Rightarrow> fval \<Rightarrow> fval" where
  "abs_diff x r_a = (case r_a of Fin a \<Rightarrow> ovf \<bar>x - a\<bar> | PInf \<Rightarrow> PInf)"

text \<open>\<^verbatim>\<open>d ** 2\<close> on a numpy float: \<open>+inf\<close> when the square exceeds the range.\<close>

definition fsquare :: "fval \<Rightarrow> fval" where
  "fsquare d = (case d of Fin y \<Rightarrow> ovf (y ^ 2) | PInf \<Rightarrow> PInf)"

text \<open>
  The denominator \<^verbatim>\<open>1 + 0.01 * abs(r - r_a)**2\<close> at one component of \<^verbatim>\<open>r\<close>. Scaling a
  finite square by \<open>0.01\<close> and adding \<open>1\<close> stays inside the range.
\<close>

definition potential_denominator :: "real \<Rightarrow> fval \<Rightarrow> fval" where
  "potential_denominator x r_a =
     (case fsquare (abs_diff x r_a) of
        Fin s \<Rightarrow> Fin (1 + 0.01 * s)
      | PInf \<Rightarrow> PInf)"

text \<open>One entry of the list comprehension: \<^verbatim>\<open>1 / (1 + 0.01 * abs(r - r_a)**2)\<close>.\<close>

fun potential_term :: "npval \<Rightarrow> fval \<Rightarrow> error + npval" where
  "potential_term (Scalar x) r_a =
     (case true_div 1 (potential_denominator x r_a) of
        Inl e \<Rightarrow> Inl e
      | Inr v \<Rightarrow> Inr (Scalar v))"
| "potential_term (Array xs) r_a =
     (case collect (map (\<lambda>x. true_div 1 (potential_denominator x r_a)) xs) of
        Inl e \<Rightarrow> Inl e
      | Inr vs \<Rightarrow> Inr (Array vs))"

text \<open>
  The list \<^verbatim>\<open>attractor_radii\<close> is built first, so an index whose radius raises ends the
  call before any term is computed.
\<close>

definition resonance_potential :: "npval \<Rightarrow> int list \<Rightarrow> error + real" where
  "resonance_potential r n_vals =
     (case collect (map com_lz_attractor_radius n_vals) of
        Inl e \<Rightarrow> Inl e
      | Inr attractor_radii \<Rightarrow>
          (case collect (map (\<lambda>r_a. potential_term r r_a) attractor_radii) of
             Inl e \<Rightarrow> Inl e
           | Inr terms \<Rightarrow> Inr (np_sum terms)))"

subsection \<open>The drift dynamics\<close>

text \<open>
  \<^verbatim>\<open>drift_acceleration(r, t, n_vals)\<close> is the right-hand side handed to the integrator,
  which calls it with the state as a one-dimensional array \<^verbatim>\<open>r = [position, velocity]\<close>.
  The source passes the whole array \<^verbatim>\<open>r + dr\<close> and \<^verbatim>\<open>r - dr\<close> to
  \<^verbatim>\<open>resonance_potential\<close>; \<^verbatim>\<open>r[1]\<close> on an array with fewer than two entries raises.
\<close>

definition drift_acceleration :: "real list \<Rightarrow> real \<Rightarrow> int list \<Rightarrow> error + real list" where
  "drift_acceleration r t n_vals =
     (let dr = 1.0
      in case resonance_potential (Array (map (\<lambda>x. x + dr) r)) n_vals of
           Inl e \<Rightarrow> Inl e
         | Inr pot_plus \<Rightarrow>
             (case resonance_potential (Array (map (\<lambda>x. x - dr) r)) n_vals of
                Inl e \<Rightarrow> Inl e
              | Inr pot_minus \<Rightarrow>
                  (case true_div (pot_plus - pot_minus) (Fin (2 * dr)) of
                     Inl e \<Rightarrow> Inl e
                   | Inr gradient \<Rightarrow>
                       if length r \<le> 1 then Inl IndexError
                       else (let damping = - 0.1 * (r ! 1)
                             in Inr [r ! 1, - gradient + damping]))))"

subsection \<open>The trajectory simulator\<close>

text \<open>
  \<^verbatim>\<open>np.linspace(start, stop, num)\<close>: \<open>num\<close> evenly spaced samples, the last one set to
  \<open>stop\<close> when there is more than one; a negative \<open>num\<close> raises \<^verbatim>\<open>ValueError\<close>.
\<close>

definition linspace :: "real \<Rightarrow> real \<Rightarrow> int \<Rightarrow> error + real list" where
  "linspace start stop num =
     (if num < 0 then Inl ValueError
      else (let divisor = num - 1;
                delta = stop - start;
                y = map real [0..<nat num];
                y = (if divisor > 0 then map (\<lambda>v. v * (delta / real_of_int divisor)) y
                     else map (\<lambda>v. v * delta) y);
                y = map (\<lambda>v. v + start) y;
                y = (if num > 1 then y[nat num - 1 := stop] else y)
            in Inr y))"

text \<open>One row of the result table: the dictionary appended to \<^verbatim>\<open>results\<close>.\<close>

record sample =
  particle :: nat
  time :: real
  radius :: real
  velocity :: real

text \<open>
  The objects the body of \<^verbatim>\<open>simulate_debris_drift\<close> works on: the list bound to
  \<^verbatim>\<open>n_vals\<close>, which the caller owns and the body hands on by reference, and the local list
  \<^verbatim>\<open>results\<close>, which it appends to.
\<close>

record store =
  n_vals_of :: "int list"
  results :: "sample list"

type_synonym rhs = "real list \<Rightarrow> real \<Rightarrow> error + real list"

type_synonym solver = "rhs \<Rightarrow> real list \<Rightarrow> real list \<Rightarrow> error + real list list"

text \<open>
  The inner loop \<^verbatim>\<open>for j in range(len(t))\<close>; \<^verbatim>\<open>sol[j, 0]\<close> and \<^verbatim>\<open>sol[j, 1]\<close> raise when
  the solution has no such entry.
\<close>

fun append_samples :: "nat \<Rightarrow> real list \<Rightarrow> real list list \<Rightarrow> nat list \<Rightarrow> store \<Rightarrow> error + store" where
  "append_samples i t sol [] s = Inr s"
| "append_samples i t sol (j # js) s =
     (if j < length sol \<and> 1 < length (sol ! j)
      then append_samples i t sol js
             (s\<lparr>results := results s @
                  [\<lparr>particle = i, time = t ! j, radius = sol ! j ! 0, velocity = sol ! j ! 1\<rparr>]\<rparr>)
      else Inl IndexError)"

text \<open>
  The outer loop \<^verbatim>\<open>for i, r0 in enumerate(initial_radii)\<close>. The integrator \<^verbatim>\<open>odeint\<close> is
  scipy's and is a parameter here; an exception it raises ends the call.
\<close>

fun simulate_particles :: "solver \<Rightarrow> real list \<Rightarrow> (nat \<times> real) list \<Rightarrow> store \<Rightarrow> error + store" where
  "simulate_particles odeint t [] s = Inr s"
| "simulate_particles odeint t ((i, r0) # rest) s =
     (let y0 = [r0, 0]
      in case odeint (\<lambda>y tt. drift_acceleration y tt (n_vals_of s)) y0 t of
           Inl e \<Rightarrow> Inl e
         | Inr sol \<Rightarrow>
             (case append_samples i t sol [0..<length t] s of
                Inl e \<Rightarrow> Inl e
              | Inr s' \<Rightarrow> simulate_particles odeint t rest s'))"

definition simulate_store :: "solver \<Rightarrow> real list \<Rightarrow> int list \<Rightarrow> real \<Rightarrow> int \<Rightarrow> error + store" where
  "simulate_store odeint initial_radii n_vals t_span num_points =
     (case linspace 0 t_span num_points of
        Inl e \<Rightarrow> Inl e
      | Inr t \<Rightarrow>
          simulate_particles odeint t (enumerate 0 initial_radii)
            \<lparr>n_vals_of = n_vals, results = []\<rparr>)"

text \<open>The value returned: the table built from \<^verbatim>\<open>results\<close>, row by row.\<close>

definition simulate_debris_drift :: "solver \<Rightarrow> real list \<Rightarrow> int list \<Rightarrow> real \<Rightarrow> int \<Rightarrow> error + sample list" where
  "simulate_debris_drift odeint initial_radii n_vals t_span num_points =
     (case simulate_store odeint initial_radii n_vals t_span num_points of
        Inl e \<Rightarrow> Inl e
      | Inr s \<Rightarrow> Inr (results s))"

subsection \<open>The integrator\<close>

text \<open>
  What scipy documents of \<^verbatim>\<open>odeint(func, y0, t)\<close>: for a monotone, non-empty sequence of
  times and a right-hand side that returns a vector as long as the state, it returns an
  array with one row per time, each as long as \<open>y0\<close>, whose first row is \<open>y0\<close>.
\<close>

definition odeint_contract :: "solver \<Rightarrow> bool" where
  "odeint_contract odeint \<longleftrightarrow>
     (\<forall>f y0 t.
        t \<noteq> [] \<and> (sorted t \<or> sorted (rev t)) \<and>
        (\<forall>y s. length y = length y0 \<longrightarrow> (\<exists>dy. f y s = Inr dy \<and> length dy = length y0))
        \<longrightarrow> (\<exists>sol. odeint f y0 t = Inr sol \<and> length sol = length t \<and> sol ! 0 = y0 \<and>
                   (\<forall>j < length t. length (sol ! j) = length y0)))"

text \<open>
  A concrete integrator with that contract, the explicit Euler method on the given grid.
  It stands for scipy's integrator wherever a statement needs an instance.
\<close>

fun euler_odeint :: solver where
  "euler_odeint f y [] = Inr []"
| "euler_odeint f y [t0] = Inr [y]"
| "euler_odeint f y (t0 # t1 # ts) =
     (case f y t0 of
        Inl e \<Rightarrow> Inl e
      | Inr dy \<Rightarrow>
          (case euler_odeint f (map2 (\<lambda>a b. a + (t1 - t0) * b) y dy) (t1 # ts) of
             Inl e \<Rightarrow> Inl e
           | Inr sol \<Rightarrow> Inr (y # sol)))"

subsection \<open>Auxiliary notions for the proofs\<close>

text \<open>The value of the radius formula in exact arithmetic.\<close>

definition radius_value :: "int \<Rightarrow> real" where
  "radius_value n = R_EARTH * (LZ powi n) * (1 + 0.1 * sin (octave_factor n * 2 * pi))"

text \<open>The value of one term of the potential at a finite radius, in exact arithmetic.\<close>

definition bump :: "real \<Rightarrow> real \<Rightarrow> real" where
  "bump x r_a = 1 / (1 + 0.01 * (x - r_a) ^ 2)"

text \<open>
  The value of one term of the potential: \<open>0\<close> when the radius is infinite or the squared
  distance leaves the range.
\<close>

definition term_value :: "real \<Rightarrow> fval \<Rightarrow> real" where
  "term_value x r_a =
     (case r_a of
        Fin a \<Rightarrow> if DBL_LIMIT \<le> (x - a) ^ 2 then 0 else bump x a
      | PInf \<Rightarrow> 0)"

text \<open>
  The rows that the inner loop appends for one particle, the bounds check of its indexing
  \<^verbatim>\<open>sol[j, 0]\<close>, \<^verbatim>\<open>sol[j, 1]\<close>, and the work of one pass of the outer loop as a function of
  the particle alone.
\<close>

definition sample_rows :: "nat \<Rightarrow> real list \<Rightarrow> real list list \<Rightarrow> nat list \<Rightarrow> sample list" where
  "sample_rows i t sol js =
     map (\<lambda>j. \<lparr>particle = i, time = t ! j, radius = sol ! j ! 0, velocity = sol ! j ! 1\<rparr>) js"

definition rows_ok :: "real list list \<Rightarrow> nat list \<Rightarrow> bool" where
  "rows_ok sol js = list_all (\<lambda>j. j < length sol \<and> 1 < length (sol ! j)) js"

definition particle_rows :: "solver \<Rightarrow> real list \<Rightarrow> int list \<Rightarrow> nat \<times> real \<Rightarrow> error + sample list" where
  "particle_rows odeint t n_vals p =
     (case odeint (\<lambda>y tt. drift_acceleration y tt n_vals) [snd p, 0] t of
        Inl e \<Rightarrow> Inl e
      | Inr sol \<Rightarrow>
          if rows_ok sol [0..<length t] then Inr (sample_rows (fst p) t sol [0..<length t])
          else Inl IndexError)"

section \<open>Powers of the scaling constant\<close>

text \<open>
  Where \<^verbatim>\<open>LZ ** n\<close> and \<^verbatim>\<open>R_EARTH * LZ ** n\<close> leave the range of the doubles is settled by
  bounds on the powers of \<open>LZ\<close>, obtained by repeated squaring with dyadic bounds.
\<close>

lemma LZ_pos: "0 < LZ"
  by (simp add: LZ_def)

lemma LZ_nonneg: "0 \<le> LZ"
  by (simp add: LZ_def)

lemma LZ_gt_1: "1 < LZ"
  by (simp add: LZ_def)

lemma lower_step:
  fixes a b c x y :: real
  assumes "a \<le> x" and "b \<le> y" and "0 \<le> a" and "0 \<le> b" and "c \<le> a * b"
  shows "c \<le> x * y"
  using mult_mono' [OF assms(1,2,3,4)] assms(5) by linarith

lemma upper_step:
  fixes a b c x y :: real
  assumes "x \<le> a" and "y \<le> b" and "0 \<le> x" and "0 \<le> y" and "a * b \<le> c"
  shows "x * y \<le> c"
proof -
  have "0 \<le> a"
    using assms(1,3) by linarith
  then have "x * y \<le> a * b"
    using assms(1,2,4) by (intro mult_mono) simp_all
  then show ?thesis
    using assms(5) by linarith
qed

lemma LZ_pow_1_lower: "123498288 / 100000000 \<le> LZ ^ 1"
  by (simp add: LZ_def)

lemma LZ_pow_1_upper: "LZ ^ 1 \<le> 123498288 / 100000000"
  by (simp add: LZ_def)

lemma LZ_pow_2_lower: "14067327594415844869 / 2 ^ 63 \<le> LZ ^ 2"
  by (simp add: LZ_def power2_eq_square)

lemma LZ_pow_2_upper: "LZ ^ 2 \<le> 7033663797207922435 / 2 ^ 62"
  by (simp add: LZ_def power2_eq_square)

lemma LZ_pow_4_lower: "1340952804854648339 / 2 ^ 59 \<le> LZ ^ 4"
proof -
  have e: "LZ ^ 4 = LZ ^ 2 * LZ ^ 2"
    using power_add [of LZ 2 2] by simp
  show ?thesis
    unfolding e by (rule lower_step [OF LZ_pow_2_lower LZ_pow_2_lower]) (simp_all add: LZ_nonneg)
qed

lemma LZ_pow_4_upper: "LZ ^ 4 \<le> 5363811219418593357 / 2 ^ 61"
proof -
  have e: "LZ ^ 4 = LZ ^ 2 * LZ ^ 2"
    using power_add [of LZ 2 2] by simp
  show ?thesis
    unfolding e by (rule upper_step [OF LZ_pow_2_upper LZ_pow_2_upper]) (simp_all add: LZ_nonneg)
qed

lemma LZ_pow_8_lower: "12477202776858463337 / 2 ^ 61 \<le> LZ ^ 8"
proof -
  have e: "LZ ^ 8 = LZ ^ 4 * LZ ^ 4"
    using power_add [of LZ 4 4] by simp
  show ?thesis
    unfolding e by (rule lower_step [OF LZ_pow_4_lower LZ_pow_4_lower]) (simp_all add: LZ_nonneg)
qed

lemma LZ_pow_8_upper: "LZ ^ 8 \<le> 6238601388429231671 / 2 ^ 60"
proof -
  have e: "LZ ^ 8 = LZ ^ 4 * LZ ^ 4"
    using power_add [of LZ 4 4] by simp
  show ?thesis
    unfolding e by (rule upper_step [OF LZ_pow_4_upper LZ_pow_4_upper]) (simp_all add: LZ_nonneg)
qed

lemma LZ_pow_16_lower: "16878923295382167661 / 2 ^ 59 \<le> LZ ^ 16"
proof -
  have e: "LZ ^ 16 = LZ ^ 8 * LZ ^ 8"
    using power_add [of LZ 8 8] by simp
  show ?thesis
    unfolding e by (rule lower_step [OF LZ_pow_8_lower LZ_pow_8_lower]) (simp_all add: LZ_nonneg)
qed

lemma LZ_pow_16_upper: "LZ ^ 16 \<le> 16878923295382167675 / 2 ^ 59"
proof -
  have e: "LZ ^ 16 = LZ ^ 8 * LZ ^ 8"
    using power_add [of LZ 8 8] by simp
  show ?thesis
    unfolding e by (rule upper_step [OF LZ_pow_8_upper LZ_pow_8_upper]) (simp_all add: LZ_nonneg)
qed

lemma LZ_pow_32_lower: "15444354324698081245 / 2 ^ 54 \<le> LZ ^ 32"
proof -
  have e: "LZ ^ 32 = LZ ^ 16 * LZ ^ 16"
    using power_add [of LZ 16 16] by simp
  show ?thesis
    unfolding e by (rule lower_step [OF LZ_pow_16_lower LZ_pow_16_lower]) (simp_all add: LZ_nonneg)
qed

lemma LZ_pow_32_upper: "LZ ^ 32 \<le> 15444354324698081271 / 2 ^ 54"
proof -
  have e: "LZ ^ 32 = LZ ^ 16 * LZ ^ 16"
    using power_add [of LZ 16 16] by simp
  show ?thesis
    unfolding e by (rule upper_step [OF LZ_pow_16_upper LZ_pow_16_upper]) (simp_all add: LZ_nonneg)
qed

lemma LZ_pow_64_lower: "12930633154214594903 / 2 ^ 44 \<le> LZ ^ 64"
proof -
  have e: "LZ ^ 64 = LZ ^ 32 * LZ ^ 32"
    using power_add [of LZ 32 32] by simp
  show ?thesis
    unfolding e by (rule lower_step [OF LZ_pow_32_lower LZ_pow_32_lower]) (simp_all add: LZ_nonneg)
qed

lemma LZ_pow_64_upper: "LZ ^ 64 \<le> 3232658288553648737 / 2 ^ 42"
proof -
  have e: "LZ ^ 64 = LZ ^ 32 * LZ ^ 32"
    using power_add [of LZ 32 32] by simp
  show ?thesis
    unfolding e by (rule upper_step [OF LZ_pow_32_upper LZ_pow_32_upper]) (simp_all add: LZ_nonneg)
qed

lemma LZ_pow_128_lower: "18127998426255643359 / 2 ^ 25 \<le> LZ ^ 128"
proof -
  have e: "LZ ^ 128 = LZ ^ 64 * LZ ^ 64"
    using power_add [of LZ 64 64] by simp
  show ?thesis
    unfolding e by (rule lower_step [OF LZ_pow_64_lower LZ_pow_64_lower]) (simp_all add: LZ_nonneg)
qed

lemma LZ_pow_128_upper: "LZ ^ 128 \<le> 9063999213127821743 / 2 ^ 24"
proof -
  have e: "LZ ^ 128 = LZ ^ 64 * LZ ^ 64"
    using power_add [of LZ 64 64] by simp
  show ?thesis
    unfolding e by (rule upper_step [OF LZ_pow_64_upper LZ_pow_64_upper]) (simp_all add: LZ_nonneg)
qed

lemma LZ_pow_256_lower: "4453690115030721365 * 2 ^ 16 \<le> LZ ^ 256"
proof -
  have e: "LZ ^ 256 = LZ ^ 128 * LZ ^ 128"
    using power_add [of LZ 128 128] by simp
  show ?thesis
    unfolding e by (rule lower_step [OF LZ_pow_128_lower LZ_pow_128_lower]) (simp_all add: LZ_nonneg)
qed

lemma LZ_pow_256_upper: "LZ ^ 256 \<le> 17814760460122885711 * 2 ^ 14"
proof -
  have e: "LZ ^ 256 = LZ ^ 128 * LZ ^ 128"
    using power_add [of LZ 128 128] by simp
  show ?thesis
    unfolding e by (rule upper_step [OF LZ_pow_128_upper LZ_pow_128_upper]) (simp_all add: LZ_nonneg)
qed

lemma LZ_pow_512_lower: "8602214271077515035 * 2 ^ 93 \<le> LZ ^ 512"
proof -
  have e: "LZ ^ 512 = LZ ^ 256 * LZ ^ 256"
    using power_add [of LZ 256 256] by simp
  show ?thesis
    unfolding e by (rule lower_step [OF LZ_pow_256_lower LZ_pow_256_lower]) (simp_all add: LZ_nonneg)
qed

lemma LZ_pow_512_upper: "LZ ^ 512 \<le> 17204428542155030555 * 2 ^ 92"
proof -
  have e: "LZ ^ 512 = LZ ^ 256 * LZ ^ 256"
    using power_add [of LZ 256 256] by simp
  show ?thesis
    unfolding e by (rule upper_step [OF LZ_pow_256_upper LZ_pow_256_upper]) (simp_all add: LZ_nonneg)
qed

lemma LZ_pow_1024_lower: "2005722258352148397 * 2 ^ 251 \<le> LZ ^ 1024"
proof -
  have e: "LZ ^ 1024 = LZ ^ 512 * LZ ^ 512"
    using power_add [of LZ 512 512] by simp
  show ?thesis
    unfolding e by (rule lower_step [OF LZ_pow_512_lower LZ_pow_512_lower]) (simp_all add: LZ_nonneg)
qed

lemma LZ_pow_1024_upper: "LZ ^ 1024 \<le> 8022889033408594041 * 2 ^ 249"
proof -
  have e: "LZ ^ 1024 = LZ ^ 512 * LZ ^ 512"
    using power_add [of LZ 512 512] by simp
  show ?thesis
    unfolding e by (rule upper_step [OF LZ_pow_512_upper LZ_pow_512_upper]) (simp_all add: LZ_nonneg)
qed

lemma LZ_pow_2048_lower: "6978656849706489501 * 2 ^ 561 \<le> LZ ^ 2048"
proof -
  have e: "LZ ^ 2048 = LZ ^ 1024 * LZ ^ 1024"
    using power_add [of LZ 1024 1024] by simp
  show ?thesis
    unfolding e by (rule lower_step [OF LZ_pow_1024_lower LZ_pow_1024_lower]) (simp_all add: LZ_nonneg)
qed

lemma LZ_pow_2048_upper: "LZ ^ 2048 \<le> 13957313699412980579 * 2 ^ 560"
proof -
  have e: "LZ ^ 2048 = LZ ^ 1024 * LZ ^ 1024"
    using power_add [of LZ 1024 1024] by simp
  show ?thesis
    unfolding e by (rule upper_step [OF LZ_pow_1024_upper LZ_pow_1024_upper]) (simp_all add: LZ_nonneg)
qed

lemma LZ_pow_3363_lower: "4622490394222053023 * 2 ^ 962 \<le> LZ ^ 3363"
proof -
  have e0: "LZ ^ 3072 = LZ ^ 2048 * LZ ^ 1024"
    using power_add [of LZ 2048 1024] by simp
  have s0: "3035169202961292101 * 2 ^ 874 \<le> LZ ^ 3072"
    unfolding e0 by (rule lower_step [OF LZ_pow_2048_lower LZ_pow_1024_lower]) (simp_all add: LZ_nonneg)
  have e1: "LZ ^ 3328 = LZ ^ 3072 * LZ ^ 256"
    using power_add [of LZ 3072 256] by simp
  have s1: "11724738434195480003 * 2 ^ 950 \<le> LZ ^ 3328"
    unfolding e1 by (rule lower_step [OF s0 LZ_pow_256_lower]) (simp_all add: LZ_nonneg)
  have e2: "LZ ^ 3360 = LZ ^ 3328 * LZ ^ 32"
    using power_add [of LZ 3328 32] by simp
  have s2: "9816421478964349771 * 2 ^ 960 \<le> LZ ^ 3360"
    unfolding e2 by (rule lower_step [OF s1 LZ_pow_32_lower]) (simp_all add: LZ_nonneg)
  have e3: "LZ ^ 3362 = LZ ^ 3360 * LZ ^ 2"
    using power_add [of LZ 3360 2] by simp
  have s3: "7310466968752593 * 2 ^ 971 \<le> LZ ^ 3362"
    unfolding e3 by (rule lower_step [OF s2 LZ_pow_2_lower]) (simp_all add: LZ_nonneg)
  have e4: "LZ ^ 3363 = LZ ^ 3362 * LZ ^ 1"
    using power_add [of LZ 3362 1] by simp
  have s4: "4622490394222053023 * 2 ^ 962 \<le> LZ ^ 3363"
    unfolding e4 by (rule lower_step [OF s3 LZ_pow_1_lower]) (simp_all add: LZ_nonneg)
  show ?thesis
    by (rule s4)
qed

lemma LZ_pow_3362_upper: "LZ ^ 3362 \<le> 3742959088001328311 * 2 ^ 962"
proof -
  have e0: "LZ ^ 3072 = LZ ^ 2048 * LZ ^ 1024"
    using power_add [of LZ 2048 1024] by simp
  have s0: "LZ ^ 3072 \<le> 6070338405922585231 * 2 ^ 873"
    unfolding e0 by (rule upper_step [OF LZ_pow_2048_upper LZ_pow_1024_upper]) (simp_all add: LZ_nonneg)
  have e1: "LZ ^ 3328 = LZ ^ 3072 * LZ ^ 256"
    using power_add [of LZ 3072 256] by simp
  have s1: "LZ ^ 3328 \<le> 11724738434195482157 * 2 ^ 950"
    unfolding e1 by (rule upper_step [OF s0 LZ_pow_256_upper]) (simp_all add: LZ_nonneg)
  have e2: "LZ ^ 3360 = LZ ^ 3328 * LZ ^ 32"
    using power_add [of LZ 3328 32] by simp
  have s2: "LZ ^ 3360 \<le> 1227052684870543949 * 2 ^ 963"
    unfolding e2 by (rule upper_step [OF s1 LZ_pow_32_upper]) (simp_all add: LZ_nonneg)
  have e3: "LZ ^ 3362 = LZ ^ 3360 * LZ ^ 2"
    using power_add [of LZ 3360 2] by simp
  have s3: "LZ ^ 3362 \<le> 3742959088001328311 * 2 ^ 962"
    unfolding e3 by (rule upper_step [OF s2 LZ_pow_2_upper]) (simp_all add: LZ_nonneg)
  show ?thesis
    by (rule s3)
qed

lemma LZ_pow_3321_upper: "LZ ^ 3321 \<le> 2675941422957217277 * 2 ^ 950"
proof -
  have e0: "LZ ^ 3072 = LZ ^ 2048 * LZ ^ 1024"
    using power_add [of LZ 2048 1024] by simp
  have s0: "LZ ^ 3072 \<le> 6070338405922585231 * 2 ^ 873"
    unfolding e0 by (rule upper_step [OF LZ_pow_2048_upper LZ_pow_1024_upper]) (simp_all add: LZ_nonneg)
  have e1: "LZ ^ 3200 = LZ ^ 3072 * LZ ^ 128"
    using power_add [of LZ 3072 128] by simp
  have s1: "LZ ^ 3200 \<le> 5965447594962739723 * 2 ^ 912"
    unfolding e1 by (rule upper_step [OF s0 LZ_pow_128_upper]) (simp_all add: LZ_nonneg)
  have e2: "LZ ^ 3264 = LZ ^ 3200 * LZ ^ 64"
    using power_add [of LZ 3200 64] by simp
  have s2: "LZ ^ 3264 \<le> 4181605932349395767 * 2 ^ 932"
    unfolding e2 by (rule upper_step [OF s1 LZ_pow_64_upper]) (simp_all add: LZ_nonneg)
  have e3: "LZ ^ 3296 = LZ ^ 3264 * LZ ^ 32"
    using power_add [of LZ 3264 32] by simp
  have s3: "LZ ^ 3296 \<le> 14004033103599376141 * 2 ^ 940"
    unfolding e3 by (rule upper_step [OF s2 LZ_pow_32_upper]) (simp_all add: LZ_nonneg)
  have e4: "LZ ^ 3312 = LZ ^ 3296 * LZ ^ 16"
    using power_add [of LZ 3296 16] by simp
  have s4: "LZ ^ 3312 \<le> 12813806037376929477 * 2 ^ 945"
    unfolding e4 by (rule upper_step [OF s3 LZ_pow_16_upper]) (simp_all add: LZ_nonneg)
  have e5: "LZ ^ 3320 = LZ ^ 3312 * LZ ^ 8"
    using power_add [of LZ 3312 8] by simp
  have s5: "LZ ^ 3320 \<le> 8667136901386737529 * 2 ^ 948"
    unfolding e5 by (rule upper_step [OF s4 LZ_pow_8_upper]) (simp_all add: LZ_nonneg)
  have e6: "LZ ^ 3321 = LZ ^ 3320 * LZ ^ 1"
    using power_add [of LZ 3320 1] by simp
  have s6: "LZ ^ 3321 \<le> 2675941422957217277 * 2 ^ 950"
    unfolding e6 by (rule upper_step [OF s5 LZ_pow_1_upper]) (simp_all add: LZ_nonneg)
  show ?thesis
    by (rule s6)
qed

lemma LZ_pow_3322_lower: "13218967380940006815 * 2 ^ 948 \<le> LZ ^ 3322"
proof -
  have e0: "LZ ^ 3072 = LZ ^ 2048 * LZ ^ 1024"
    using power_add [of LZ 2048 1024] by simp
  have s0: "3035169202961292101 * 2 ^ 874 \<le> LZ ^ 3072"
    unfolding e0 by (rule lower_step [OF LZ_pow_2048_lower LZ_pow_1024_lower]) (simp_all add: LZ_nonneg)
  have e1: "LZ ^ 3200 = LZ ^ 3072 * LZ ^ 128"
    using power_add [of LZ 3072 128] by simp
  have s1: "11930895189925477339 * 2 ^ 911 \<le> LZ ^ 3200"
    unfolding e1 by (rule lower_step [OF s0 LZ_pow_128_lower]) (simp_all add: LZ_nonneg)
  have e2: "LZ ^ 3264 = LZ ^ 3200 * LZ ^ 64"
    using power_add [of LZ 3200 64] by simp
  have s2: "16726423729397580055 * 2 ^ 930 \<le> LZ ^ 3264"
    unfolding e2 by (rule lower_step [OF s1 LZ_pow_64_lower]) (simp_all add: LZ_nonneg)
  have e3: "LZ ^ 3296 = LZ ^ 3264 * LZ ^ 32"
    using power_add [of LZ 3264 32] by simp
  have s3: "7002016551799686797 * 2 ^ 941 \<le> LZ ^ 3296"
    unfolding e3 by (rule lower_step [OF s2 LZ_pow_32_lower]) (simp_all add: LZ_nonneg)
  have e4: "LZ ^ 3312 = LZ ^ 3296 * LZ ^ 16"
    using power_add [of LZ 3296 16] by simp
  have s4: "12813806037376927135 * 2 ^ 945 \<le> LZ ^ 3312"
    unfolding e4 by (rule lower_step [OF s3 LZ_pow_16_lower]) (simp_all add: LZ_nonneg)
  have e5: "LZ ^ 3320 = LZ ^ 3312 * LZ ^ 8"
    using power_add [of LZ 3312 8] by simp
  have s5: "8667136901386735941 * 2 ^ 948 \<le> LZ ^ 3320"
    unfolding e5 by (rule lower_step [OF s4 LZ_pow_8_lower]) (simp_all add: LZ_nonneg)
  have e6: "LZ ^ 3322 = LZ ^ 3320 * LZ ^ 2"
    using power_add [of LZ 3320 2] by simp
  have s6: "13218967380940006815 * 2 ^ 948 \<le> LZ ^ 3322"
    unfolding e6 by (rule lower_step [OF s5 LZ_pow_2_lower]) (simp_all add: LZ_nonneg)
  show ?thesis
    by (rule s6)
qed

lemma DBL_MAX_gt_1: "1 < DBL_MAX"
  by (simp add: DBL_MAX_def)

lemma DBL_MAX_pos: "0 < DBL_MAX"
  by (simp add: DBL_MAX_def)

lemma DBL_MAX_less_LIMIT: "DBL_MAX < DBL_LIMIT"
  by (simp add: DBL_MAX_def DBL_LIMIT_def)

lemma DBL_LIMIT_gt_1: "1 < DBL_LIMIT"
  by (simp add: DBL_LIMIT_def)

lemma DBL_TINY_small: "DBL_TINY < 1 / DBL_MAX"
  by (simp add: DBL_TINY_def DBL_MAX_def)

lemma DBL_TINY_pos: "0 < DBL_TINY"
  by (simp add: DBL_TINY_def)

lemma LZ_powi_pos: "0 < LZ powi n"
  using LZ_pos by (rule zero_less_power_int)

lemma LZ_powi_mono: "m \<le> n \<Longrightarrow> LZ powi m \<le> LZ powi n"
  using LZ_gt_1 by (intro power_int_increasing) simp_all

lemma LZ_powi_Suc: "LZ powi (n + 1) = LZ powi n * LZ"
  using LZ_pos by (simp add: power_int_add)

lemma LZ_powi_overflow:
  assumes "3363 \<le> n"
  shows "DBL_LIMIT \<le> LZ powi n"
proof -
  have "DBL_LIMIT \<le> LZ ^ 3363"
    using LZ_pow_3363_lower by (simp add: DBL_LIMIT_def)
  also have "LZ ^ 3363 = LZ powi 3363"
    by simp
  also have "\<dots> \<le> LZ powi n"
    using assms by (rule LZ_powi_mono)
  finally show ?thesis .
qed

lemma LZ_powi_in_range:
  assumes "n \<le> 3362"
  shows "LZ powi n \<le> DBL_MAX"
proof -
  have "LZ powi n \<le> LZ powi 3362"
    using assms by (rule LZ_powi_mono)
  also have "\<dots> = LZ ^ 3362"
    by simp
  also have "\<dots> \<le> DBL_MAX"
    using LZ_pow_3362_upper by (simp add: DBL_MAX_def)
  finally show ?thesis .
qed

lemma LZ_powi_not_tiny:
  assumes "- 3362 \<le> n"
  shows "DBL_TINY < LZ powi n"
proof -
  have "LZ powi 3362 \<le> DBL_MAX"
    by (rule LZ_powi_in_range) simp
  then have "1 / DBL_MAX \<le> 1 / LZ powi 3362"
    using LZ_powi_pos [of 3362] by (intro frac_le) simp_all
  also have "1 / LZ powi 3362 = LZ powi (- 3362)"
    by (simp only: power_int_minus_divide)
  also have "\<dots> \<le> LZ powi n"
    using assms by (rule LZ_powi_mono)
  finally show ?thesis
    using DBL_TINY_small by linarith
qed

lemma base_radius_in_range:
  assumes "n \<le> 3321"
  shows "R_EARTH * LZ powi n \<le> DBL_MAX"
proof -
  have "LZ powi n \<le> LZ powi 3321"
    using assms by (rule LZ_powi_mono)
  also have "\<dots> = LZ ^ 3321"
    by simp
  finally have "R_EARTH * LZ powi n \<le> 6371 * LZ ^ 3321"
    by (simp add: R_EARTH_def)
  also have "\<dots> \<le> DBL_MAX"
    using LZ_pow_3321_upper by (simp add: DBL_MAX_def)
  finally show ?thesis .
qed

lemma base_radius_overflow:
  assumes "3322 \<le> n"
  shows "DBL_LIMIT \<le> R_EARTH * LZ powi n"
proof -
  have "DBL_LIMIT \<le> 6371 * LZ ^ 3322"
    using LZ_pow_3322_lower by (simp add: DBL_LIMIT_def)
  also have "LZ ^ 3322 = LZ powi 3322"
    by simp
  also have "6371 * LZ powi 3322 \<le> 6371 * LZ powi n"
    using LZ_powi_mono [OF assms] by simp
  finally show ?thesis
    by (simp add: R_EARTH_def)
qed

subsection \<open>The power as Python computes it\<close>

lemma INT_LIMIT_big: "4000 < INT_LIMIT"
  by (simp add: INT_LIMIT_def)

lemma float_pow_LZ_overflow:
  assumes "3363 \<le> n \<or> n \<le> - INT_LIMIT"
  shows "float_pow LZ n = Inl OverflowError"
proof (cases "INT_LIMIT \<le> \<bar>n\<bar>")
  case True
  then show ?thesis
    by (simp add: float_pow_def)
next
  case False
  then have "3363 \<le> n"
    using assms by linarith
  then show ?thesis
    using LZ_powi_overflow [of n] LZ_powi_pos [of n] LZ_pos by (simp add: float_pow_def)
qed

lemma float_pow_LZ_exact:
  assumes "- 3362 \<le> n" and "n \<le> 3362"
  shows "float_pow LZ n = Inr (LZ powi n)"
proof -
  have "\<not> INT_LIMIT \<le> \<bar>n\<bar>"
    using assms INT_LIMIT_big by linarith
  moreover have "\<not> DBL_LIMIT \<le> LZ powi n"
    using LZ_powi_in_range [OF assms(2)] DBL_MAX_less_LIMIT by linarith
  ultimately show ?thesis
    using LZ_powi_not_tiny [of n] LZ_powi_pos [of n] LZ_pos assms
    by (simp add: float_pow_def)
qed

lemma float_pow_LZ_returns:
  assumes "- INT_LIMIT < n" and "n \<le> 3362"
  shows "\<exists>p. float_pow LZ n = Inr p \<and> 0 \<le> p \<and> p \<le> LZ powi n"
proof -
  have "\<not> INT_LIMIT \<le> \<bar>n\<bar>"
    using assms INT_LIMIT_big by linarith
  moreover have "\<not> DBL_LIMIT \<le> LZ powi n"
    using LZ_powi_in_range [OF assms(2)] DBL_MAX_less_LIMIT by linarith
  ultimately show ?thesis
    using LZ_powi_pos [of n] LZ_pos
    by (simp add: float_pow_def)
qed

section \<open>Properties of the radius model\<close>

lemma modulation_bounds:
  "9 / 10 \<le> 1 + 0.1 * sin x" "1 + 0.1 * sin x \<le> 11 / 10" for x :: real
  using sin_ge_minus_one [of x] sin_le_one [of x] by linarith+

lemma octave_factor_bounds: "0 < octave_factor n" "octave_factor n \<le> 1"
proof -
  have lo: "0 \<le> (n - 1) mod 9" by simp
  have hi: "(n - 1) mod 9 < 9" by simp
  have "0 < real_of_int ((n - 1) mod 9 + 1)"
    using lo by linarith
  then show "0 < octave_factor n"
    by (simp add: octave_factor_def)
  have "real_of_int ((n - 1) mod 9 + 1) \<le> 9"
    using hi by linarith
  then show "octave_factor n \<le> 1"
    by (simp add: octave_factor_def)
qed

lemma octave_factor_shift: "octave_factor (n + 9) = octave_factor n"
proof -
  have "(n + 9 - 1) mod 9 = (n - 1) mod 9"
    by (metis add.commute add_diff_eq mod_add_self1)
  then show ?thesis
    by (simp add: octave_factor_def)
qed

lemma radius_value_pos: "0 < radius_value n"
proof -
  have "0 < 1 + 0.1 * sin (octave_factor n * 2 * pi)"
    using modulation_bounds(1) [of "octave_factor n * 2 * pi"] by linarith
  moreover have "0 < R_EARTH * LZ powi n"
    using LZ_powi_pos [of n] by (simp add: R_EARTH_def)
  ultimately show ?thesis
    unfolding radius_value_def by (rule mult_pos_pos [rotated])
qed

lemma radius_value_shift: "radius_value (n + 9) = LZ ^ 9 * radius_value n"
proof -
  have "LZ powi (n + 9) = LZ powi n * LZ ^ 9"
    using LZ_pos by (simp add: power_int_add)
  then show ?thesis
    by (simp add: radius_value_def octave_factor_shift)
qed

lemma radius_value_in_range:
  assumes "n \<le> 3321"
  shows "radius_value n \<le> DBL_MAX"
proof (cases "n = 3321")
  case True
  have "octave_factor 3321 = 1"
    by (simp add: octave_factor_def)
  then have "radius_value 3321 = R_EARTH * LZ powi 3321"
    by (simp add: radius_value_def)
  then show ?thesis
    using base_radius_in_range [of 3321] True by simp
next
  case False
  then have n: "n + 1 \<le> 3321"
    using assms by linarith
  have base: "0 \<le> R_EARTH * LZ powi n"
    using LZ_powi_pos [of n] by (simp add: R_EARTH_def)
  have "1 + 0.1 * sin (octave_factor n * 2 * pi) \<le> LZ"
    using modulation_bounds(2) [of "octave_factor n * 2 * pi"] unfolding LZ_def by linarith
  then have "radius_value n \<le> R_EARTH * LZ powi n * LZ"
    unfolding radius_value_def using base by (rule mult_left_mono)
  also have "\<dots> = R_EARTH * LZ powi (n + 1)"
    by (simp add: LZ_powi_Suc)
  also have "\<dots> \<le> DBL_MAX"
    using n by (rule base_radius_in_range)
  finally show ?thesis .
qed

lemma ovf_Fin: "x \<le> DBL_MAX \<Longrightarrow> ovf x = Fin x"
  using DBL_MAX_less_LIMIT by (simp add: ovf_def)

lemma ovf_PInf: "DBL_LIMIT \<le> x \<Longrightarrow> ovf x = PInf"
  by (simp add: ovf_def)

lemma com_lz_attractor_radius_raises:
  "3363 \<le> n \<or> n \<le> - INT_LIMIT \<Longrightarrow> com_lz_attractor_radius n = Inl OverflowError"
  by (simp add: com_lz_attractor_radius_def float_pow_LZ_overflow)

lemma com_lz_attractor_radius_from_power:
  assumes p: "float_pow LZ n = Inr p" and p0: "0 \<le> p" and le: "p \<le> LZ powi n"
    and n: "n \<le> 3321"
  shows "com_lz_attractor_radius n
           = Inr (Fin (R_EARTH * p * (1 + 0.1 * sin (octave_factor n * 2 * pi))))"
proof -
  let ?f = "1 + 0.1 * sin (octave_factor n * 2 * pi)"
  have f: "0 \<le> ?f"
    using modulation_bounds(1) [of "octave_factor n * 2 * pi"] by linarith
  have "R_EARTH * p \<le> R_EARTH * LZ powi n"
    using le by (simp add: R_EARTH_def)
  then have base: "R_EARTH * p \<le> DBL_MAX"
    using base_radius_in_range [OF n] by linarith
  have "R_EARTH * p * ?f \<le> R_EARTH * LZ powi n * ?f"
    using \<open>R_EARTH * p \<le> R_EARTH * LZ powi n\<close> f by (rule mult_right_mono)
  then have "R_EARTH * p * ?f \<le> DBL_MAX"
    using radius_value_in_range [OF n] by (simp add: radius_value_def)
  then show ?thesis
    using base by (simp add: com_lz_attractor_radius_def p ftimes_def ovf_Fin)
qed

lemma com_lz_attractor_radius_finite:
  assumes "- 3362 \<le> n" and "n \<le> 3321"
  shows "com_lz_attractor_radius n = Inr (Fin (radius_value n))"
proof -
  have "float_pow LZ n = Inr (LZ powi n)"
    using assms by (intro float_pow_LZ_exact) simp_all
  then show ?thesis
    using LZ_powi_pos [of n] assms(2)
    by (simp add: com_lz_attractor_radius_from_power radius_value_def)
qed

lemma com_lz_attractor_radius_returns_finite:
  assumes "- INT_LIMIT < n" and "n \<le> 3321"
  shows "\<exists>R. com_lz_attractor_radius n = Inr (Fin R) \<and> 0 \<le> R \<and> R \<le> radius_value n"
proof -
  let ?f = "1 + 0.1 * sin (octave_factor n * 2 * pi)"
  obtain p where p: "float_pow LZ n = Inr p" "0 \<le> p" "p \<le> LZ powi n"
    using float_pow_LZ_returns [of n] assms by auto
  have f: "0 \<le> ?f"
    using modulation_bounds(1) [of "octave_factor n * 2 * pi"] by linarith
  then have "0 \<le> R_EARTH * p * ?f"
    using p(2) by (simp add: R_EARTH_def)
  moreover have "R_EARTH * p \<le> R_EARTH * LZ powi n"
    using p(3) by (simp add: R_EARTH_def)
  then have "R_EARTH * p * ?f \<le> radius_value n"
    unfolding radius_value_def using f by (rule mult_right_mono)
  ultimately show ?thesis
    using com_lz_attractor_radius_from_power [OF p assms(2)] by blast
qed

lemma radius_value_moderate:
  assumes "n \<le> 1000"
  shows "radius_value n \<le> 10 ^ 110"
proof -
  have "LZ powi n \<le> LZ powi 1024"
    using assms by (intro LZ_powi_mono) simp
  also have "\<dots> = LZ ^ 1024"
    by simp
  also have "\<dots> \<le> 10 ^ 100"
    using LZ_pow_1024_upper by simp
  finally have base: "R_EARTH * LZ powi n \<le> 6371 * 10 ^ 100"
    by (simp add: R_EARTH_def)
  have base0: "0 \<le> R_EARTH * LZ powi n"
    using LZ_powi_pos [of n] by (simp add: R_EARTH_def)
  have f0: "0 \<le> 1 + 0.1 * sin (octave_factor n * 2 * pi)"
    using modulation_bounds(1) [of "octave_factor n * 2 * pi"] by linarith
  show ?thesis
    unfolding radius_value_def
    by (rule upper_step [OF base modulation_bounds(2) base0 f0]) simp
qed

lemma radius_value_ge:
  assumes "0 \<le> n"
  shows "5000 \<le> radius_value n"
proof -
  have "LZ powi 0 \<le> LZ powi n"
    using assms by (rule LZ_powi_mono)
  then have base: "6371 \<le> R_EARTH * LZ powi n"
    by (simp add: R_EARTH_def)
  show ?thesis
    unfolding radius_value_def
    by (rule lower_step [OF base modulation_bounds(1)]) simp_all
qed

lemma com_lz_attractor_radius_infinite:
  assumes "3322 \<le> n" and "n \<le> 3362"
  shows "com_lz_attractor_radius n = Inr PInf"
proof -
  have "float_pow LZ n = Inr (LZ powi n)"
    using assms by (intro float_pow_LZ_exact) simp_all
  then show ?thesis
    using base_radius_overflow [OF assms(1)]
    by (simp add: com_lz_attractor_radius_def ftimes_def ovf_PInf)
qed

lemma com_lz_attractor_radius_returns:
  assumes "- INT_LIMIT < n" and "n \<le> 3362"
  shows "\<exists>v. com_lz_attractor_radius n = Inr v"
proof (cases "n \<le> 3321")
  case True
  then show ?thesis
    using com_lz_attractor_radius_returns_finite [OF assms(1)] by blast
next
  case False
  then show ?thesis
    using com_lz_attractor_radius_infinite [of n] assms(2) by simp
qed

text \<open>
  Claim C2, as stated, fails for large \<open>n\<close>: from \<open>n = 3363\<close> on, \<^verbatim>\<open>LZ ** n\<close> exceeds the
  largest double and the call raises instead of returning the value of the formula.
\<close>

theorem com_lz_attractor_radius_overflow:
  "com_lz_attractor_radius 3363 = Inl OverflowError"
  by (rule com_lz_attractor_radius_raises) simp

text \<open>
  Claim C2, amended. For \<open>n \<ge> 3363\<close> the call raises \<^verbatim>\<open>OverflowError\<close>, and so it does for
  \<open>n \<le> -(2^1024 - 2^970)\<close>, where the exponent does not convert to a double; for every
  \<open>n\<close> in between, also \<open>n \<le> 0\<close>, it returns. Where the formula
  \<open>6371 * 1.23498288^n * (1 + 0.1 * sin (octave * 2 * pi))\<close> with
  \<open>octave = ((n - 1) mod 9 + 1) / 9\<close> stays inside the range of the doubles, from \<open>-3000\<close>
  to \<open>3321\<close>, the result is its value; from \<open>3322\<close> to \<open>3362\<close> the result is \<open>+inf\<close>. For
  every \<open>n\<close> the octave factor lies in \<open>(0, 1]\<close>.
\<close>

theorem com_lz_attractor_radius_formula:
  "(3363 \<le> n \<or> n \<le> - INT_LIMIT \<longrightarrow> com_lz_attractor_radius n = Inl OverflowError)
   \<and> (- INT_LIMIT < n \<and> n \<le> 3362 \<longrightarrow> (\<exists>v. com_lz_attractor_radius n = Inr v))
   \<and> (- 3000 \<le> n \<and> n \<le> 3321 \<longrightarrow>
        com_lz_attractor_radius n =
          Inr (Fin (6371 * ((123498288 / 100000000) powi n)
                      * (1 + 0.1 * sin (real_of_int ((n - 1) mod 9 + 1) / 9 * 2 * pi)))))
   \<and> (3322 \<le> n \<and> n \<le> 3362 \<longrightarrow> com_lz_attractor_radius n = Inr PInf)
   \<and> 0 < octave_factor n \<and> octave_factor n \<le> 1"
proof (intro conjI impI)
  show "com_lz_attractor_radius n = Inl OverflowError" if "3363 \<le> n \<or> n \<le> - INT_LIMIT"
    using that by (rule com_lz_attractor_radius_raises)
  show "\<exists>v. com_lz_attractor_radius n = Inr v" if "- INT_LIMIT < n \<and> n \<le> 3362"
    using that by (intro com_lz_attractor_radius_returns) simp_all
  show "com_lz_attractor_radius n =
          Inr (Fin (6371 * ((123498288 / 100000000) powi n)
                      * (1 + 0.1 * sin (real_of_int ((n - 1) mod 9 + 1) / 9 * 2 * pi))))"
    if "- 3000 \<le> n \<and> n \<le> 3321"
    using that com_lz_attractor_radius_finite [of n]
    by (simp add: radius_value_def octave_factor_def LZ_def R_EARTH_def)
  show "com_lz_attractor_radius n = Inr PInf" if "3322 \<le> n \<and> n \<le> 3362"
    using that com_lz_attractor_radius_infinite [of n] by simp
  show "0 < octave_factor n" "octave_factor n \<le> 1"
    by (rule octave_factor_bounds)+
qed

theorem com_lz_attractor_radius_formula_witness:
  "com_lz_attractor_radius 4000 = Inl OverflowError
   \<and> com_lz_attractor_radius (- (2 ^ 1024)) = Inl OverflowError
   \<and> (\<exists>v. com_lz_attractor_radius (- 4000) = Inr v)
   \<and> com_lz_attractor_radius 0 = Inr (Fin 6371)
   \<and> com_lz_attractor_radius 3330 = Inr PInf"
  using com_lz_attractor_radius_formula [of 4000] com_lz_attractor_radius_formula [of "- (2 ^ 1024)"]
    com_lz_attractor_radius_formula [of "- 4000"]
    com_lz_attractor_radius_formula [of 0] com_lz_attractor_radius_formula [of 3330]
  by (simp add: INT_LIMIT_def)

text \<open>
  Claim C6, as stated, fails for large \<open>n\<close>: the radius of \<open>3354\<close> is returned (it is
  \<open>+inf\<close>), the radius of \<open>3354 + 9\<close> is not, so no equation holds between them.
\<close>

theorem com_lz_attractor_radius_period_overflow:
  "com_lz_attractor_radius 3354 = Inr PInf
   \<and> com_lz_attractor_radius (3354 + 9) = Inl OverflowError"
  by (simp add: com_lz_attractor_radius_infinite com_lz_attractor_radius_raises)

text \<open>
  Claim C6, amended. The octave factor of \<open>n + 9\<close> is exactly that of \<open>n\<close>. Where both radii
  are finite, for \<open>n\<close> from \<open>-3000\<close> and \<open>n + 9\<close> up to \<open>3321\<close>, the radius of \<open>n + 9\<close> is
  \<open>LZ^9\<close> times that of \<open>n\<close> up to the rounding of the doubles, for which a relative
  tolerance of \<open>10^-9\<close> is left (in exact arithmetic the two are equal). For
  \<open>n + 9 \<ge> 3363\<close> the radius of \<open>n + 9\<close> raises \<^verbatim>\<open>OverflowError\<close>.
\<close>

theorem com_lz_attractor_radius_period:
  "octave_factor (n + 9) = octave_factor n
   \<and> (- 3000 \<le> n \<and> n + 9 \<le> 3321 \<longrightarrow>
        (\<exists>a b. com_lz_attractor_radius n = Inr (Fin a)
               \<and> com_lz_attractor_radius (n + 9) = Inr (Fin b)
               \<and> 0 < a \<and> \<bar>b - LZ ^ 9 * a\<bar> \<le> b / 10 ^ 9))
   \<and> (3363 \<le> n + 9 \<longrightarrow> com_lz_attractor_radius (n + 9) = Inl OverflowError)"
proof (intro conjI impI)
  show "octave_factor (n + 9) = octave_factor n"
    by (rule octave_factor_shift)
  show "com_lz_attractor_radius (n + 9) = Inl OverflowError" if "3363 \<le> n + 9"
    using that by (intro com_lz_attractor_radius_raises disjI1)
  show "\<exists>a b. com_lz_attractor_radius n = Inr (Fin a)
               \<and> com_lz_attractor_radius (n + 9) = Inr (Fin b)
               \<and> 0 < a \<and> \<bar>b - LZ ^ 9 * a\<bar> \<le> b / 10 ^ 9"
    if n: "- 3000 \<le> n \<and> n + 9 \<le> 3321"
  proof (intro exI conjI)
    show "com_lz_attractor_radius n = Inr (Fin (radius_value n))"
      using n by (intro com_lz_attractor_radius_finite) simp_all
    show "com_lz_attractor_radius (n + 9) = Inr (Fin (radius_value (n + 9)))"
      using n by (intro com_lz_attractor_radius_finite) simp_all
    show "0 < radius_value n"
      by (rule radius_value_pos)
    show "\<bar>radius_value (n + 9) - LZ ^ 9 * radius_value n\<bar> \<le> radius_value (n + 9) / 10 ^ 9"
      using radius_value_pos [of "n + 9"] by (simp add: radius_value_shift)
  qed
qed

theorem com_lz_attractor_radius_period_witness:
  "(\<exists>a b. com_lz_attractor_radius 1 = Inr (Fin a)
          \<and> com_lz_attractor_radius 10 = Inr (Fin b)
          \<and> 0 < a \<and> \<bar>b - LZ ^ 9 * a\<bar> \<le> b / 10 ^ 9)
   \<and> com_lz_attractor_radius 3400 = Inl OverflowError"
  using com_lz_attractor_radius_period [of 1] com_lz_attractor_radius_period [of 3391]
  by simp

section \<open>The value of the first radius\<close>

text \<open>
  \<open>sin (2 pi / 9)\<close> is bracketed through the triple-angle identity: it is the root of
  \<open>3 s - 4 s^3 = sqrt 3 / 2\<close> in the interval \<open>[1/2, 1]\<close>, where the cubic is antitone.
\<close>

lemma sin_triple: "sin (3 * x) = 3 * sin x - 4 * sin x ^ 3" for x :: real
proof -
  have "sin (3 * x) = sin (2 * x + x)"
    by simp
  also have "\<dots> = sin (2 * x) * cos x + cos (2 * x) * sin x"
    by (rule sin_add)
  also have "\<dots> = 2 * sin x * (cos x)\<^sup>2 + (1 - 2 * (sin x)\<^sup>2) * sin x"
    by (simp add: sin_double cos_double_sin power2_eq_square)
  also have "(cos x)\<^sup>2 = 1 - (sin x)\<^sup>2"
    by (simp add: cos_squared_eq)
  finally show ?thesis
    by (simp add: algebra_simps power2_eq_square power3_eq_cube)
qed

lemma cubic_antitone:
  fixes a b :: real
  assumes "1 / 2 \<le> a" and "a \<le> b"
  shows "3 * b - 4 * b ^ 3 \<le> 3 * a - 4 * a ^ 3"
proof -
  have aa: "1 / 4 \<le> a * a"
    using mult_mono [of "1 / 2" a "1 / 2" a] assms by simp
  have ab: "1 / 4 \<le> a * b"
    using mult_mono [of "1 / 2" a "1 / 2" b] assms by simp
  have bb: "1 / 4 \<le> b * b"
    using mult_mono [of "1 / 2" b "1 / 2" b] assms by simp
  have "3 / 4 \<le> a * a + a * b + b * b"
    using aa ab bb by linarith
  then have "0 \<le> 4 * (a * a + a * b + b * b) - 3"
    by simp
  moreover have "0 \<le> b - a"
    using assms by simp
  ultimately have "0 \<le> (b - a) * (4 * (a * a + a * b + b * b) - 3)"
    by (rule mult_nonneg_nonneg [rotated])
  also have "\<dots> = (3 * a - 4 * a ^ 3) - (3 * b - 4 * b ^ 3)"
    by (simp add: algebra_simps power3_eq_cube)
  finally show ?thesis
    by linarith
qed

lemma sin_40_cubic: "3 * sin (2 * pi / 9) - 4 * sin (2 * pi / 9) ^ 3 = sqrt 3 / 2"
proof -
  have "3 * sin (2 * pi / 9) - 4 * sin (2 * pi / 9) ^ 3 = sin (3 * (2 * pi / 9))"
    by (rule sin_triple [symmetric])
  also have "3 * (2 * pi / 9) = pi - pi / 3"
    by simp
  also have "sin (pi - pi / 3) = sin (pi / 3)"
    by (rule sin_pi_minus)
  finally show ?thesis
    by (simp add: sin_60)
qed

lemma sin_40_ge_half: "1 / 2 \<le> sin (2 * pi / 9)"
proof -
  have "- (pi / 2) \<le> pi / 6" and "pi / 6 \<le> pi / 2"
    and "- (pi / 2) \<le> 2 * pi / 9" and "2 * pi / 9 \<le> pi / 2" and "pi / 6 \<le> 2 * pi / 9"
    using pi_gt_zero by linarith+
  then have "sin (pi / 6) \<le> sin (2 * pi / 9)"
    by (simp only: sin_mono_le_eq)
  then show ?thesis
    by (simp add: sin_30)
qed

lemma sqrt3_bounds: "17320508 / 10000000 < sqrt 3" "sqrt 3 < 17320509 / 10000000"
proof -
  show "17320508 / 10000000 < sqrt 3"
    by (rule real_less_rsqrt) (simp add: power2_eq_square)
  show "sqrt 3 < 17320509 / 10000000"
    by (rule real_less_lsqrt) (simp_all add: power2_eq_square)
qed

lemma sin_40_lower: "6427 / 10000 < sin (2 * pi / 9)"
proof (rule ccontr)
  assume "\<not> 6427 / 10000 < sin (2 * pi / 9)"
  then have le: "sin (2 * pi / 9) \<le> 6427 / 10000"
    by simp
  have "3 * (6427 / 10000) - 4 * (6427 / 10000) ^ 3
          \<le> 3 * sin (2 * pi / 9) - 4 * sin (2 * pi / 9) ^ 3"
    by (rule cubic_antitone [OF sin_40_ge_half le])
  then have "3 * (6427 / 10000) - 4 * (6427 / 10000) ^ 3 \<le> sqrt 3 / 2"
    by (simp only: sin_40_cubic)
  moreover have "(17320509 / 10000000) / 2 < 3 * (6427 / 10000) - 4 * (6427 / 10000 :: real) ^ 3"
    by (simp add: power3_eq_cube)
  ultimately show False
    using sqrt3_bounds(2) by linarith
qed

lemma sin_40_upper: "sin (2 * pi / 9) < 6428 / 10000"
proof (rule ccontr)
  assume "\<not> sin (2 * pi / 9) < 6428 / 10000"
  then have ge: "6428 / 10000 \<le> sin (2 * pi / 9)"
    by simp
  have "3 * sin (2 * pi / 9) - 4 * sin (2 * pi / 9) ^ 3
          \<le> 3 * (6428 / 10000) - 4 * (6428 / 10000) ^ 3"
    by (rule cubic_antitone [OF _ ge]) simp
  then have "sqrt 3 / 2 \<le> 3 * (6428 / 10000) - 4 * (6428 / 10000) ^ 3"
    by (simp only: sin_40_cubic)
  moreover have "3 * (6428 / 10000) - 4 * (6428 / 10000 :: real) ^ 3 < (17320508 / 10000000) / 2"
    by (simp add: power3_eq_cube)
  ultimately show False
    using sqrt3_bounds(1) by linarith
qed

lemma radius_1_eq:
  "radius_value 1 = 786807592848 / 100000000 * (1 + sin (2 * pi / 9) / 10)"
  by (simp add: radius_value_def octave_factor_def R_EARTH_def LZ_def)

lemma radius_1_bounds:
  "837375 / 100 < radius_value 1" "radius_value 1 < 837384 / 100"
proof -
  have lo: "837375 / 100 < 786807592848 / 100000000 * (1 + (6427 / 10000) / 10 :: real)"
    by simp
  have hi: "786807592848 / 100000000 * (1 + (6428 / 10000) / 10 :: real) < 837384 / 100"
    by simp
  have "786807592848 / 100000000 * (1 + (6427 / 10000) / 10)
          < 786807592848 / 100000000 * (1 + sin (2 * pi / 9) / 10)"
    using sin_40_lower by simp
  with lo show "837375 / 100 < radius_value 1"
    unfolding radius_1_eq by linarith
  have "786807592848 / 100000000 * (1 + sin (2 * pi / 9) / 10)
          < 786807592848 / 100000000 * (1 + (6428 / 10000) / 10)"
    using sin_40_upper by simp
  with hi show "radius_value 1 < 837384 / 100"
    unfolding radius_1_eq by linarith
qed

lemma radius_1_returned:
  "com_lz_attractor_radius 1 = Inr (Fin (R_EARTH * LZ powi 1 * (1 + 0.1 * sin (2 * pi / 9))))"
  using com_lz_attractor_radius_finite [of 1] by (simp add: radius_value_def octave_factor_def)

lemma radius_1_unfold: "R_EARTH * LZ powi 1 * (1 + 0.1 * sin (2 * pi / 9)) = radius_value 1"
  by (simp add: radius_value_def octave_factor_def)

text \<open>
  Claim C7, as stated, fails: \<open>radius 1\<close> is not within \<open>0.1\<close> of \<open>8373.1\<close>. The base is
  \<open>6371 * 1.23498288 = 7868.07592848\<close>, not about \<open>7867.6\<close>.
\<close>

theorem radius_1_not_within_tolerance:
  "com_lz_attractor_radius 1 = Inr (Fin (R_EARTH * LZ powi 1 * (1 + 0.1 * sin (2 * pi / 9))))
   \<and> \<not> \<bar>R_EARTH * LZ powi 1 * (1 + 0.1 * sin (2 * pi / 9)) - 8373.1\<bar> \<le> 0.1"
proof
  show "com_lz_attractor_radius 1 = Inr (Fin (R_EARTH * LZ powi 1 * (1 + 0.1 * sin (2 * pi / 9))))"
    by (rule radius_1_returned)
  show "\<not> \<bar>R_EARTH * LZ powi 1 * (1 + 0.1 * sin (2 * pi / 9)) - 8373.1\<bar> \<le> 0.1"
    unfolding radius_1_unfold abs_le_iff using radius_1_bounds(1) by simp
qed

text \<open>
  Claim C7, amended. With \<open>LZ = 1.23498288\<close> and \<open>R0 = 6371\<close>: the octave factor of \<open>1\<close> is
  \<open>1/9\<close>, the base is \<open>7868.07592848\<close>, \<open>sin (2 pi / 9)\<close> lies between \<open>0.6427\<close> and
  \<open>0.6428\<close>, and \<open>radius 1\<close> is within \<open>0.1\<close> of \<open>8373.8\<close>.
\<close>

theorem radius_1_value:
  "octave_factor 1 = 1 / 9
   \<and> R_EARTH * LZ powi 1 = 7868.07592848
   \<and> 0.6427 < sin (2 * pi / 9) \<and> sin (2 * pi / 9) < 0.6428
   \<and> com_lz_attractor_radius 1 = Inr (Fin (R_EARTH * LZ powi 1 * (1 + 0.1 * sin (2 * pi / 9))))
   \<and> \<bar>R_EARTH * LZ powi 1 * (1 + 0.1 * sin (2 * pi / 9)) - 8373.8\<bar> \<le> 0.1"
proof -
  have "octave_factor 1 = 1 / 9"
    by (simp add: octave_factor_def)
  moreover have "R_EARTH * LZ powi 1 = 7868.07592848"
    by (simp add: R_EARTH_def LZ_def)
  moreover have "0.6427 < sin (2 * pi / 9)"
    using sin_40_lower by simp
  moreover have "sin (2 * pi / 9) < 0.6428"
    using sin_40_upper by simp
  moreover have "\<bar>R_EARTH * LZ powi 1 * (1 + 0.1 * sin (2 * pi / 9)) - 8373.8\<bar> \<le> 0.1"
    unfolding radius_1_unfold abs_le_iff using radius_1_bounds by simp
  ultimately show ?thesis
    using radius_1_returned by blast
qed

section \<open>Properties of the potential field\<close>

subsection \<open>Lists of results\<close>

lemma collect_map_Inr: "collect (map (\<lambda>x. Inr (f x)) xs) = Inr (map f xs)"
  by (induction xs) simp_all

lemma collect_Inr_length: "collect xs = Inr vs \<Longrightarrow> length vs = length xs"
  by (induction xs arbitrary: vs) (auto split: sum.splits)

lemma collect_Inr_nth: "collect xs = Inr vs \<Longrightarrow> k < length xs \<Longrightarrow> xs ! k = Inr (vs ! k)"
proof (induction xs arbitrary: vs k)
  case Nil
  then show ?case by simp
next
  case (Cons x xs)
  then show ?case
    by (cases k) (auto split: sum.splits)
qed

lemma collect_radii_returns:
  "\<forall>n \<in> set n_vals. - INT_LIMIT < n \<and> n \<le> 3362 \<Longrightarrow>
   \<exists>ras. collect (map com_lz_attractor_radius n_vals) = Inr ras"
proof (induction n_vals)
  case Nil
  show ?case by simp
next
  case (Cons n n_vals)
  obtain v where "com_lz_attractor_radius n = Inr v"
    using com_lz_attractor_radius_returns [of n] Cons.prems by auto
  moreover obtain ras where "collect (map com_lz_attractor_radius n_vals) = Inr ras"
    using Cons by auto
  ultimately show ?case
    by simp
qed

lemma collect_radii_raises:
  "\<exists>n \<in> set n_vals. 3363 \<le> n \<or> n \<le> - INT_LIMIT \<Longrightarrow>
   collect (map com_lz_attractor_radius n_vals) = Inl OverflowError"
proof (induction n_vals)
  case Nil
  then show ?case by simp
next
  case (Cons n n_vals)
  show ?case
  proof (cases "3363 \<le> n \<or> n \<le> - INT_LIMIT")
    case True
    then show ?thesis
      by (simp add: com_lz_attractor_radius_raises)
  next
    case False
    then obtain v where "com_lz_attractor_radius n = Inr v"
      using com_lz_attractor_radius_returns [of n] by auto
    moreover have "collect (map com_lz_attractor_radius n_vals) = Inl OverflowError"
      using Cons False by auto
    ultimately show ?thesis
      by simp
  qed
qed

lemma collect_radii_moderate:
  "\<forall>n \<in> set n_vals. - INT_LIMIT < n \<and> n \<le> 1000 \<Longrightarrow>
   \<exists>rs. collect (map com_lz_attractor_radius n_vals) = Inr (map Fin rs)
        \<and> length rs = length n_vals \<and> (\<forall>a \<in> set rs. 0 \<le> a \<and> a \<le> 10 ^ 110)"
proof (induction n_vals)
  case Nil
  show ?case by simp
next
  case (Cons n n_vals)
  have "- INT_LIMIT < n" "n \<le> 3321" "n \<le> 1000"
    using Cons.prems by simp_all
  then obtain R where R: "com_lz_attractor_radius n = Inr (Fin R)" "0 \<le> R" "R \<le> 10 ^ 110"
    using com_lz_attractor_radius_returns_finite [of n] radius_value_moderate [of n]
    by (meson order_trans)
  obtain rs where rs: "collect (map com_lz_attractor_radius n_vals) = Inr (map Fin rs)"
      "length rs = length n_vals" "\<forall>a \<in> set rs. 0 \<le> a \<and> a \<le> 10 ^ 110"
    using Cons by auto
  show ?case
    using R rs by (intro exI [of _ "R # rs"]) simp
qed

subsection \<open>One term\<close>

lemma square_exceeds:
  assumes "DBL_LIMIT \<le> \<bar>d\<bar>"
  shows "DBL_LIMIT \<le> d ^ 2"
proof -
  have "1 < \<bar>d\<bar>"
    using assms DBL_LIMIT_gt_1 by linarith
  then have "\<bar>d\<bar> * 1 < \<bar>d\<bar> * \<bar>d\<bar>"
    by (intro mult_strict_left_mono) simp_all
  then have "\<bar>d\<bar> < d ^ 2"
    by (simp add: power2_eq_square)
  then show ?thesis
    using assms by linarith
qed

lemma potential_denominator_Fin:
  "potential_denominator x (Fin a) =
     (if DBL_LIMIT \<le> (x - a) ^ 2 then PInf else Fin (1 + 0.01 * (x - a) ^ 2))"
proof (cases "DBL_LIMIT \<le> \<bar>x - a\<bar>")
  case True
  then show ?thesis
    using square_exceeds [of "x - a"]
    by (simp add: potential_denominator_def abs_diff_def fsquare_def ovf_def)
next
  case False
  then show ?thesis
    by (simp add: potential_denominator_def abs_diff_def fsquare_def ovf_def)
qed

lemma potential_denominator_PInf: "potential_denominator x PInf = PInf"
  by (simp add: potential_denominator_def abs_diff_def fsquare_def)

lemma potential_denominator_ge_1: "potential_denominator x r_a = Fin y \<Longrightarrow> 1 \<le> y"
  by (cases r_a) (auto simp: potential_denominator_Fin potential_denominator_PInf split: if_splits)

lemma potential_denominator_abs_diff:
  "abs_diff x r_a = abs_diff x' r_a' \<Longrightarrow> potential_denominator x r_a = potential_denominator x' r_a'"
  by (simp add: potential_denominator_def)

lemma bump_denominator_pos: "0 < 1 + 0.01 * (x - r_a) ^ 2" for x r_a :: real
  by (simp add: add_pos_nonneg)

lemma true_div_denominator:
  "true_div 1 (potential_denominator x r_a) = Inr (term_value x r_a)"
proof (cases r_a)
  case (Fin a)
  have "1 + 0.01 * (x - a) ^ 2 \<noteq> 0"
    using bump_denominator_pos [of x a] by linarith
  then show ?thesis
    using Fin by (simp add: potential_denominator_Fin true_div_def term_value_def bump_def)
next
  case PInf
  then show ?thesis
    by (simp add: potential_denominator_PInf true_div_def term_value_def)
qed

lemma term_value_abs_diff:
  assumes "abs_diff x r_a = abs_diff x' r_a'"
  shows "term_value x r_a = term_value x' r_a'"
proof -
  have "(Inr (term_value x r_a) :: error + real) = Inr (term_value x' r_a')"
    using potential_denominator_abs_diff [OF assms]
    by (simp only: true_div_denominator [symmetric])
  then show ?thesis
    by simp
qed

lemma potential_term_Scalar:
  "potential_term (Scalar x) = (\<lambda>r_a. Inr (Scalar (term_value x r_a)))"
  by (rule ext) (simp add: true_div_denominator)

lemma potential_term_Array:
  "potential_term (Array xs) = (\<lambda>r_a. Inr (Array (map (\<lambda>x. term_value x r_a) xs)))"
  by (rule ext) (simp add: true_div_denominator collect_map_Inr)

lemma bump_pos: "0 < bump x r_a"
  by (simp add: bump_def add_pos_nonneg)

lemma recip_le_1: "1 \<le> a \<Longrightarrow> 1 / a \<le> 1" for a :: real
  by simp

lemma recip_less_iff: "0 < a \<Longrightarrow> 0 < b \<Longrightarrow> 1 / a < 1 / b \<longleftrightarrow> b < a" for a b :: real
  by (simp add: field_simps)

lemma bump_le_1: "bump x r_a \<le> 1"
  unfolding bump_def by (rule recip_le_1) simp

lemma bump_less_iff: "bump x r_a < bump y r_a \<longleftrightarrow> \<bar>y - r_a\<bar> < \<bar>x - r_a\<bar>"
proof -
  have "bump x r_a < bump y r_a \<longleftrightarrow> 1 + 0.01 * (y - r_a) ^ 2 < 1 + 0.01 * (x - r_a) ^ 2"
    unfolding bump_def
    by (rule recip_less_iff [OF bump_denominator_pos bump_denominator_pos])
  also have "\<dots> \<longleftrightarrow> (y - r_a) ^ 2 < (x - r_a) ^ 2"
    by simp
  also have "\<dots> \<longleftrightarrow> \<bar>y - r_a\<bar> < \<bar>x - r_a\<bar>"
    by (metis abs_le_square_iff not_le)
  finally show ?thesis .
qed

lemma term_value_nonneg: "0 \<le> term_value x r_a"
  using bump_pos [of x] by (cases r_a) (simp_all add: term_value_def less_imp_le)

lemma term_value_le_1: "term_value x r_a \<le> 1"
  using bump_le_1 [of x] by (cases r_a) (simp_all add: term_value_def)

lemma term_value_at_radius: "term_value a (Fin a) = 1"
  using DBL_LIMIT_gt_1 by (simp add: term_value_def bump_def)

lemma term_value_bump:
  assumes "(x - a) ^ 2 \<le> DBL_MAX"
  shows "term_value x (Fin a) = bump x a"
proof -
  have "\<not> DBL_LIMIT \<le> (x - a) ^ 2"
    using assms DBL_MAX_less_LIMIT by linarith
  then show ?thesis
    by (simp add: term_value_def)
qed

lemma term_value_pos: "(x - a) ^ 2 \<le> DBL_MAX \<Longrightarrow> 0 < term_value x (Fin a)"
  using bump_pos [of x a] by (simp add: term_value_bump)

lemma term_value_antimono:
  assumes "\<bar>x1 - a\<bar> \<le> \<bar>x2 - a\<bar>"
  shows "term_value x2 (Fin a) \<le> term_value x1 (Fin a)"
proof -
  have sq: "(x1 - a) ^ 2 \<le> (x2 - a) ^ 2"
    using assms by (simp only: abs_le_square_iff)
  have "\<not> bump x1 a < bump x2 a"
    using assms by (simp only: bump_less_iff)
  then have "bump x2 a \<le> bump x1 a"
    by simp
  then show ?thesis
    using sq bump_pos [of x1 a] by (simp add: term_value_def)
qed

lemma term_value_off_radius:
  assumes "1 / 10 ^ 6 \<le> \<bar>x - a\<bar>"
  shows "term_value x (Fin a) < 1"
proof -
  have "(0 :: real) < 1 / 10 ^ 6"
    by simp
  then have "0 < \<bar>x - a\<bar>"
    using assms by linarith
  then have "\<bar>a - a\<bar> < \<bar>x - a\<bar>"
    by simp
  then have "bump x a < bump a a"
    by (simp only: bump_less_iff)
  then have "bump x a < 1"
    by (simp add: bump_def)
  then show ?thesis
    by (simp add: term_value_def)
qed

subsection \<open>The sum\<close>

lemma resonance_potential_Scalar:
  assumes "collect (map com_lz_attractor_radius n_vals) = Inr ras"
  shows "resonance_potential (Scalar x) n_vals = Inr (\<Sum>a\<leftarrow>ras. term_value x a)"
proof -
  have "concat (map (\<lambda>a. [term_value x a]) ras) = map (term_value x) ras"
    by (induction ras) simp_all
  then show ?thesis
    by (simp add: resonance_potential_def assms potential_term_Scalar collect_map_Inr
        np_sum_def comp_def del: potential_term.simps)
qed

lemma resonance_potential_Array:
  assumes "collect (map com_lz_attractor_radius n_vals) = Inr ras"
  shows "resonance_potential (Array xs) n_vals = Inr (\<Sum>a\<leftarrow>ras. \<Sum>x\<leftarrow>xs. term_value x a)"
proof -
  have "sum_list (concat (map (\<lambda>a. map (\<lambda>x. term_value x a) xs) ras))
          = (\<Sum>a\<leftarrow>ras. \<Sum>x\<leftarrow>xs. term_value x a)"
    by (induction ras) simp_all
  then show ?thesis
    by (simp add: resonance_potential_def assms potential_term_Array collect_map_Inr
        np_sum_def comp_def del: potential_term.simps)
qed

lemma resonance_potential_Inl:
  "collect (map com_lz_attractor_radius n_vals) = Inl e \<Longrightarrow> resonance_potential r n_vals = Inl e"
  by (simp add: resonance_potential_def)

lemma resonance_potential_returns:
  assumes "collect (map com_lz_attractor_radius n_vals) = Inr ras"
  shows "\<exists>v. resonance_potential r n_vals = Inr v"
  by (cases r) (simp_all add: resonance_potential_Scalar [OF assms] resonance_potential_Array [OF assms])

lemma resonance_potential_single:
  "com_lz_attractor_radius n = Inr r_a \<Longrightarrow>
   resonance_potential (Scalar x) [n] = Inr (term_value x r_a)"
  using resonance_potential_Scalar [of "[n]" "[r_a]" x] by simp

lemma term_sum_nonneg: "0 \<le> (\<Sum>a\<leftarrow>ras. term_value x a)"
  by (rule sum_list_nonneg) (auto intro: term_value_nonneg)

lemma term_sum_le_length: "(\<Sum>a\<leftarrow>ras. term_value x a) \<le> real (length ras)"
proof (induction ras)
  case Nil
  show ?case by simp
next
  case (Cons a ras)
  then show ?case
    using term_value_le_1 [of x a] by simp
qed

lemma term_sum_pos:
  assumes "rs \<noteq> []" and "\<forall>a \<in> set rs. (x - a) ^ 2 \<le> DBL_MAX"
  shows "0 < (\<Sum>a\<leftarrow>map Fin rs. term_value x a)"
proof (cases rs)
  case Nil
  then show ?thesis
    using assms(1) by simp
next
  case (Cons a rest)
  have "0 < term_value x (Fin a)"
    using assms(2) Cons by (intro term_value_pos) simp
  moreover have "0 \<le> (\<Sum>a\<leftarrow>map Fin rest. term_value x a)"
    by (rule term_sum_nonneg)
  ultimately show ?thesis
    using Cons by simp
qed

lemma moderate_square:
  fixes x a :: real
  assumes "\<bar>x\<bar> \<le> 10 ^ 150" and "0 \<le> a" and "a \<le> 10 ^ 110"
  shows "(x - a) ^ 2 \<le> DBL_MAX"
proof -
  have "\<bar>x - a\<bar> \<le> 2 * 10 ^ 150"
    using assms by (simp add: abs_le_iff)
  then have "\<bar>x - a\<bar> ^ 2 \<le> (2 * 10 ^ 150) ^ 2"
    by (intro power_mono) simp_all
  also have "\<dots> \<le> DBL_MAX"
    by (simp add: DBL_MAX_def)
  finally show ?thesis
    by simp
qed

subsection \<open>The claims about the potential\<close>

text \<open>
  Claim C4, as stated, fails for large \<open>n\<close>: for the index \<open>3400\<close> there is no radius and
  the potential over \<open>[3400]\<close> has no value, so no maximum \<open>1.0\<close> at the radius.
\<close>

theorem resonance_potential_single_overflow:
  "com_lz_attractor_radius 3400 = Inl OverflowError
   \<and> resonance_potential (Scalar 0) [3400] = Inl OverflowError"
  by (simp add: com_lz_attractor_radius_raises resonance_potential_Inl)

text \<open>
  Claim C4, amended. For a single attractor \<open>n\<close> above \<open>-(2^1024 - 2^970)\<close> and up to
  \<open>3321\<close> the radius is finite and the potential at the radius is exactly \<open>1\<close>; at every
  \<open>r\<close> it lies between \<open>0\<close> and \<open>1\<close>, and below \<open>1\<close> once \<open>r\<close> is \<open>10^-6\<close> or more away
  from the radius; and it does not increase with the distance \<open>\<bar>r - radius n\<bar>\<close>: the
  nearer point has the larger or an equal value. (Strict decrease and a maximum at the
  radius alone hold in exact arithmetic only: the doubles also give \<open>1.0\<close> next to the
  radius.) For \<open>n\<close> from \<open>3322\<close> to \<open>3362\<close> the radius is \<open>+inf\<close> and the potential is \<open>0\<close>
  at every finite \<open>r\<close>; for every other \<open>n\<close> the call raises.
\<close>

theorem resonance_potential_single_maximum:
  "(- INT_LIMIT < n \<and> n \<le> 3321 \<longrightarrow>
      (\<exists>R. com_lz_attractor_radius n = Inr (Fin R)
          \<and> resonance_potential (Scalar R) [n] = Inr 1
          \<and> (\<exists>v1 v2. resonance_potential (Scalar r1) [n] = Inr v1
                \<and> resonance_potential (Scalar r2) [n] = Inr v2
                \<and> 0 \<le> v1 \<and> v1 \<le> 1
                \<and> (1 / 10 ^ 6 \<le> \<bar>r1 - R\<bar> \<longrightarrow> v1 < 1)
                \<and> (\<bar>r1 - R\<bar> \<le> \<bar>r2 - R\<bar> \<longrightarrow> v2 \<le> v1))))
   \<and> (3322 \<le> n \<and> n \<le> 3362 \<longrightarrow> resonance_potential (Scalar r1) [n] = Inr 0)
   \<and> (3363 \<le> n \<or> n \<le> - INT_LIMIT \<longrightarrow>
        resonance_potential (Scalar r1) [n] = Inl OverflowError)"
proof (intro conjI impI)
  assume "- INT_LIMIT < n \<and> n \<le> 3321"
  then obtain R where R: "com_lz_attractor_radius n = Inr (Fin R)"
    using com_lz_attractor_radius_returns_finite [of n] by blast
  have v: "resonance_potential (Scalar x) [n] = Inr (term_value x (Fin R))" for x
    using R by (rule resonance_potential_single)
  have "resonance_potential (Scalar R) [n] = Inr 1"
    by (simp add: v term_value_at_radius)
  moreover have "0 \<le> term_value r1 (Fin R)" "term_value r1 (Fin R) \<le> 1"
    by (rule term_value_nonneg, rule term_value_le_1)
  moreover have "1 / 10 ^ 6 \<le> \<bar>r1 - R\<bar> \<longrightarrow> term_value r1 (Fin R) < 1"
    using term_value_off_radius [of r1 R] by blast
  moreover have "\<bar>r1 - R\<bar> \<le> \<bar>r2 - R\<bar> \<longrightarrow> term_value r2 (Fin R) \<le> term_value r1 (Fin R)"
    using term_value_antimono [of r1 R r2] by blast
  ultimately show "\<exists>R. com_lz_attractor_radius n = Inr (Fin R)
          \<and> resonance_potential (Scalar R) [n] = Inr 1
          \<and> (\<exists>v1 v2. resonance_potential (Scalar r1) [n] = Inr v1
                \<and> resonance_potential (Scalar r2) [n] = Inr v2
                \<and> 0 \<le> v1 \<and> v1 \<le> 1
                \<and> (1 / 10 ^ 6 \<le> \<bar>r1 - R\<bar> \<longrightarrow> v1 < 1)
                \<and> (\<bar>r1 - R\<bar> \<le> \<bar>r2 - R\<bar> \<longrightarrow> v2 \<le> v1))"
    using R v by blast
next
  assume "3322 \<le> n \<and> n \<le> 3362"
  then have "com_lz_attractor_radius n = Inr PInf"
    by (intro com_lz_attractor_radius_infinite) simp_all
  then show "resonance_potential (Scalar r1) [n] = Inr 0"
    by (simp add: resonance_potential_single term_value_def)
next
  assume "3363 \<le> n \<or> n \<le> - INT_LIMIT"
  then show "resonance_potential (Scalar r1) [n] = Inl OverflowError"
    by (simp add: com_lz_attractor_radius_raises resonance_potential_Inl)
qed

theorem resonance_potential_single_maximum_witness:
  "(\<exists>R v1 v2. com_lz_attractor_radius 5 = Inr (Fin R)
        \<and> resonance_potential (Scalar R) [5] = Inr 1
        \<and> resonance_potential (Scalar 0) [5] = Inr v1
        \<and> resonance_potential (Scalar (- 1)) [5] = Inr v2
        \<and> v1 < 1 \<and> v2 \<le> v1)
   \<and> resonance_potential (Scalar 0) [3330] = Inr 0
   \<and> resonance_potential (Scalar 0) [3363] = Inl OverflowError"
proof -
  have R: "com_lz_attractor_radius 5 = Inr (Fin (radius_value 5))"
    by (rule com_lz_attractor_radius_finite) simp_all
  have "5000 \<le> radius_value 5"
    by (rule radius_value_ge) simp
  then have far: "1 / 10 ^ 6 \<le> \<bar>0 - radius_value 5\<bar>"
    and order: "\<bar>0 - radius_value 5\<bar> \<le> \<bar>- 1 - radius_value 5\<bar>"
    by simp_all
  show ?thesis
    using resonance_potential_single_maximum [of 5 0 "- 1"]
      resonance_potential_single_maximum [of 3330 0 0]
      resonance_potential_single_maximum [of 3363 0 0] R far order INT_LIMIT_big
    by auto
qed

text \<open>
  Claim C5, as stated, fails for large \<open>n\<close>: the index \<open>3363\<close> has no radius, so neither
  \<open>radius n + d\<close> nor \<open>radius n - d\<close> exists, and the potential over \<open>[3363]\<close> raises at every
  argument.
\<close>

theorem resonance_potential_symmetric_overflow:
  "com_lz_attractor_radius 3363 = Inl OverflowError
   \<and> resonance_potential (Scalar 1) [3363] = Inl OverflowError
   \<and> resonance_potential (Scalar (- 1)) [3363] = Inl OverflowError"
  by (simp add: com_lz_attractor_radius_raises resonance_potential_Inl)

text \<open>
  Claim C5, amended. For a single attractor \<open>n\<close> above \<open>-(2^1024 - 2^970)\<close> and up to
  \<open>3321\<close>, where the radius is finite, the potential takes the same value at any two
  arguments at the same distance from the radius, as \<open>radius n + d\<close> and \<open>radius n - d\<close>
  are when both are formed without rounding. In general the potential depends on the
  argument and the attractor radii only through the floats \<^verbatim>\<open>abs(r - r_a)\<close>: equal lists
  of them give equal potentials.
\<close>

theorem resonance_potential_symmetric:
  "(- INT_LIMIT < n \<and> n \<le> 3321 \<longrightarrow>
      (\<exists>R. com_lz_attractor_radius n = Inr (Fin R)
          \<and> (\<bar>r1 - R\<bar> = \<bar>r2 - R\<bar> \<longrightarrow>
               (\<exists>v. resonance_potential (Scalar r1) [n] = Inr v
                    \<and> resonance_potential (Scalar r2) [n] = Inr v))))
   \<and> (collect (map com_lz_attractor_radius n_vals) = Inr ras
       \<and> collect (map com_lz_attractor_radius n_vals') = Inr ras'
       \<and> map (abs_diff r) ras = map (abs_diff r') ras'
       \<longrightarrow> resonance_potential (Scalar r) n_vals = resonance_potential (Scalar r') n_vals')"
proof (intro conjI impI)
  assume "- INT_LIMIT < n \<and> n \<le> 3321"
  then obtain R where R: "com_lz_attractor_radius n = Inr (Fin R)"
    using com_lz_attractor_radius_returns_finite [of n] by blast
  have v: "resonance_potential (Scalar x) [n] = Inr (term_value x (Fin R))" for x
    using R by (rule resonance_potential_single)
  have sym: "\<bar>r1 - R\<bar> = \<bar>r2 - R\<bar> \<longrightarrow>
          (\<exists>v. resonance_potential (Scalar r1) [n] = Inr v
               \<and> resonance_potential (Scalar r2) [n] = Inr v)"
  proof
    assume "\<bar>r1 - R\<bar> = \<bar>r2 - R\<bar>"
    then have "abs_diff r1 (Fin R) = abs_diff r2 (Fin R)"
      by (simp add: abs_diff_def)
    then have "term_value r1 (Fin R) = term_value r2 (Fin R)"
      by (rule term_value_abs_diff)
    then show "\<exists>v. resonance_potential (Scalar r1) [n] = Inr v
               \<and> resonance_potential (Scalar r2) [n] = Inr v"
      by (simp add: v)
  qed
  show "\<exists>R. com_lz_attractor_radius n = Inr (Fin R)
          \<and> (\<bar>r1 - R\<bar> = \<bar>r2 - R\<bar> \<longrightarrow>
               (\<exists>v. resonance_potential (Scalar r1) [n] = Inr v
                    \<and> resonance_potential (Scalar r2) [n] = Inr v))"
  proof (intro exI conjI)
    show "com_lz_attractor_radius n = Inr (Fin R)"
      by (rule R)
    show "\<bar>r1 - R\<bar> = \<bar>r2 - R\<bar> \<longrightarrow>
          (\<exists>v. resonance_potential (Scalar r1) [n] = Inr v
               \<and> resonance_potential (Scalar r2) [n] = Inr v)"
      by (rule sym)
  qed
next
  assume a: "collect (map com_lz_attractor_radius n_vals) = Inr ras
       \<and> collect (map com_lz_attractor_radius n_vals') = Inr ras'
       \<and> map (abs_diff r) ras = map (abs_diff r') ras'"
  then have c: "collect (map com_lz_attractor_radius n_vals) = Inr ras"
    and c': "collect (map com_lz_attractor_radius n_vals') = Inr ras'"
    and m: "map (abs_diff r) ras = map (abs_diff r') ras'"
    by simp_all
  have len: "length ras = length ras'"
    using m by (rule map_eq_imp_length_eq)
  have "map (term_value r) ras = map (term_value r') ras'"
  proof (rule nth_equalityI)
    show "length (map (term_value r) ras) = length (map (term_value r') ras')"
      using len by simp
    fix i
    assume "i < length (map (term_value r) ras)"
    then have i: "i < length ras" "i < length ras'"
      using len by simp_all
    have "map (abs_diff r) ras ! i = map (abs_diff r') ras' ! i"
      by (simp only: m)
    then have "abs_diff r (ras ! i) = abs_diff r' (ras' ! i)"
      using i by simp
    then have "term_value r (ras ! i) = term_value r' (ras' ! i)"
      by (rule term_value_abs_diff)
    then show "map (term_value r) ras ! i = map (term_value r') ras' ! i"
      using i by simp
  qed
  then show "resonance_potential (Scalar r) n_vals = resonance_potential (Scalar r') n_vals'"
    by (simp only: resonance_potential_Scalar [OF c] resonance_potential_Scalar [OF c'])
qed

theorem resonance_potential_symmetric_witness:
  "(\<exists>R v. com_lz_attractor_radius 5 = Inr (Fin R)
        \<and> resonance_potential (Scalar (R + 3)) [5] = Inr v
        \<and> resonance_potential (Scalar (R - 3)) [5] = Inr v)
   \<and> resonance_potential (Scalar 6374) [0, 0] = resonance_potential (Scalar 6368) [0, 0]"
proof -
  have R: "com_lz_attractor_radius 5 = Inr (Fin (radius_value 5))"
    by (rule com_lz_attractor_radius_finite) simp_all
  have "radius_value 0 = 6371"
    by (simp add: radius_value_def octave_factor_def R_EARTH_def)
  then have R0: "com_lz_attractor_radius 0 = Inr (Fin 6371)"
    using com_lz_attractor_radius_finite [of 0] by simp
  have d: "abs_diff 6374 (Fin 6371) = abs_diff 6368 (Fin 6371)"
    by (simp add: abs_diff_def)
  show ?thesis
    using resonance_potential_symmetric
      [where n = 5 and ?r1.0 = "radius_value 5 + 3" and ?r2.0 = "radius_value 5 - 3"
         and n_vals = "[0, 0]" and ras = "[Fin 6371, Fin 6371]"
         and n_vals' = "[0, 0]" and ras' = "[Fin 6371, Fin 6371]"
         and r = 6374 and r' = 6368]
      R R0 d INT_LIMIT_big
    by auto
qed

text \<open>
  Claim C8, as stated, fails: the call with the index \<open>4000\<close> raises.
\<close>

theorem resonance_potential_overflow:
  "resonance_potential (Scalar 0) [4000] = Inl OverflowError"
  by (simp add: com_lz_attractor_radius_raises resonance_potential_Inl)

text \<open>
  Claim C8, amended. Every denominator \<^verbatim>\<open>1 + 0.01 * abs(r - r_a)**2\<close> is at least \<open>1\<close> (or
  \<open>+inf\<close>), so the division never meets a zero and \<^verbatim>\<open>resonance_potential\<close> never fails with
  a division by zero, for a scalar or an array. It returns a value whenever every index
  is above \<open>-(2^1024 - 2^970)\<close> and at most \<open>3362\<close>; its one failure is the \<^verbatim>\<open>OverflowError\<close>
  of \<^verbatim>\<open>LZ ** n\<close>, raised as soon as an index is outside this range.
\<close>

theorem resonance_potential_no_failure:
  "(potential_denominator x r_a = PInf \<or> (\<exists>y. potential_denominator x r_a = Fin y \<and> 1 \<le> y))
   \<and> (\<exists>v. true_div 1 (potential_denominator x r_a) = Inr v)
   \<and> resonance_potential r n_vals \<noteq> Inl ZeroDivisionError
   \<and> ((\<forall>n \<in> set n_vals. - INT_LIMIT < n \<and> n \<le> 3362) \<longrightarrow>
        (\<exists>v. resonance_potential r n_vals = Inr v))
   \<and> ((\<exists>n \<in> set n_vals. 3363 \<le> n \<or> n \<le> - INT_LIMIT) \<longrightarrow>
        resonance_potential r n_vals = Inl OverflowError)"
proof -
  have den: "potential_denominator x r_a = PInf
               \<or> (\<exists>y. potential_denominator x r_a = Fin y \<and> 1 \<le> y)"
    using potential_denominator_ge_1 [of x r_a] by (cases "potential_denominator x r_a") simp_all
  have quot: "\<exists>v. true_div 1 (potential_denominator x r_a) = Inr v"
    by (simp add: true_div_denominator)
  have ret: "\<exists>v. resonance_potential r n_vals = Inr v"
    if "\<forall>n \<in> set n_vals. - INT_LIMIT < n \<and> n \<le> 3362"
    using collect_radii_returns [OF that] resonance_potential_returns by blast
  have err: "resonance_potential r n_vals = Inl OverflowError"
    if "\<exists>n \<in> set n_vals. 3363 \<le> n \<or> n \<le> - INT_LIMIT"
    using collect_radii_raises [OF that] by (rule resonance_potential_Inl)
  have "(\<forall>n \<in> set n_vals. - INT_LIMIT < n \<and> n \<le> 3362)
          \<or> (\<exists>n \<in> set n_vals. 3363 \<le> n \<or> n \<le> - INT_LIMIT)"
  proof (cases "\<exists>n \<in> set n_vals. 3363 \<le> n \<or> n \<le> - INT_LIMIT")
    case True
    then show ?thesis ..
  next
    case False
    have "- INT_LIMIT < n \<and> n \<le> 3362" if "n \<in> set n_vals" for n
    proof -
      have "\<not> (3363 \<le> n \<or> n \<le> - INT_LIMIT)"
        using False that by blast
      then show ?thesis
        by linarith
    qed
    then show ?thesis
      by blast
  qed
  then have nz: "resonance_potential r n_vals \<noteq> Inl ZeroDivisionError"
  proof
    assume "\<forall>n \<in> set n_vals. - INT_LIMIT < n \<and> n \<le> 3362"
    then obtain v where "resonance_potential r n_vals = Inr v"
      using ret by blast
    then show ?thesis
      by simp
  next
    assume "\<exists>n \<in> set n_vals. 3363 \<le> n \<or> n \<le> - INT_LIMIT"
    then have "resonance_potential r n_vals = Inl OverflowError"
      by (rule err)
    then show ?thesis
      by simp
  qed
  show ?thesis
    using den quot nz ret err by (intro conjI impI)
qed

theorem resonance_potential_no_failure_witness:
  "(\<exists>v. resonance_potential (Array [0, 1]) [3, 3330] = Inr v)
   \<and> resonance_potential (Scalar 0) [3, 3363] = Inl OverflowError"
  using resonance_potential_no_failure [of 0 PInf "Array [0, 1]" "[3, 3330]"]
    resonance_potential_no_failure [of 0 PInf "Scalar 0" "[3, 3363]"] INT_LIMIT_big
  by simp

text \<open>
  Claim C10, as stated, fails: far from the attractor the squared distance leaves the
  range of the doubles, the term is \<open>1 / inf = 0\<close>, and the potential is \<open>0\<close>, outside
  \<open>(0, k]\<close>.
\<close>

theorem resonance_potential_zero:
  "resonance_potential (Scalar (10 ^ 200)) [3] = Inr 0"
proof -
  have R: "com_lz_attractor_radius 3 = Inr (Fin (radius_value 3))"
    by (rule com_lz_attractor_radius_finite) simp_all
  have "radius_value 3 \<le> 10 ^ 110"
    by (rule radius_value_moderate) simp
  then have "(10 ^ 199 :: real) \<le> 10 ^ 200 - radius_value 3"
    by simp
  then have "(10 ^ 199 :: real) ^ 2 \<le> (10 ^ 200 - radius_value 3) ^ 2"
    by (intro power_mono) simp_all
  moreover have "DBL_LIMIT \<le> (10 ^ 199 :: real) ^ 2"
    by (simp add: DBL_LIMIT_def)
  ultimately have "DBL_LIMIT \<le> (10 ^ 200 - radius_value 3) ^ 2"
    by linarith
  then show ?thesis
    by (simp add: resonance_potential_single [OF R] term_value_def)
qed

text \<open>
  Claim C10, amended. With no attractor the potential is exactly \<open>0\<close>. With \<open>k\<close> attractors,
  each index above \<open>-(2^1024 - 2^970)\<close> and at most \<open>3362\<close>, it lies in \<open>[0, k]\<close>, each term
  lying in \<open>[0, 1]\<close>. It is positive, so in \<open>(0, k]\<close>, when no squared distance leaves the
  range: for \<open>k > 0\<close> indices of at most \<open>1000\<close> and \<open>\<bar>r\<bar> \<le> 10^150\<close>.
\<close>

theorem resonance_potential_range:
  "resonance_potential (Scalar r) [] = Inr 0
   \<and> ((\<forall>n \<in> set n_vals. - INT_LIMIT < n \<and> n \<le> 3362) \<longrightarrow>
        (\<exists>v. resonance_potential (Scalar r) n_vals = Inr v \<and> 0 \<le> v \<and> v \<le> real (length n_vals)))
   \<and> (n_vals \<noteq> [] \<and> (\<forall>n \<in> set n_vals. - INT_LIMIT < n \<and> n \<le> 1000) \<and> \<bar>r\<bar> \<le> 10 ^ 150 \<longrightarrow>
        (\<exists>v. resonance_potential (Scalar r) n_vals = Inr v \<and> 0 < v \<and> v \<le> real (length n_vals)))"
proof (intro conjI impI)
  show "resonance_potential (Scalar r) [] = Inr 0"
    using resonance_potential_Scalar [of "[]" "[]" r] by simp
next
  assume "\<forall>n \<in> set n_vals. - INT_LIMIT < n \<and> n \<le> 3362"
  then obtain ras where ras: "collect (map com_lz_attractor_radius n_vals) = Inr ras"
    using collect_radii_returns by blast
  have "length ras = length n_vals"
    using collect_Inr_length [OF ras] by simp
  then show "\<exists>v. resonance_potential (Scalar r) n_vals = Inr v \<and> 0 \<le> v \<and> v \<le> real (length n_vals)"
    using resonance_potential_Scalar [OF ras, of r] term_sum_nonneg [of r ras]
      term_sum_le_length [of r ras]
    by simp
next
  assume a: "n_vals \<noteq> [] \<and> (\<forall>n \<in> set n_vals. - INT_LIMIT < n \<and> n \<le> 1000) \<and> \<bar>r\<bar> \<le> 10 ^ 150"
  then obtain rs where rs: "collect (map com_lz_attractor_radius n_vals) = Inr (map Fin rs)"
      "length rs = length n_vals" "\<forall>a \<in> set rs. 0 \<le> a \<and> a \<le> 10 ^ 110"
    using collect_radii_moderate [of n_vals] by blast
  have "rs \<noteq> []"
    using a rs(2) by auto
  moreover have "\<forall>a \<in> set rs. (r - a) ^ 2 \<le> DBL_MAX"
    using a rs(3) moderate_square [of r] by blast
  ultimately have "0 < (\<Sum>a\<leftarrow>map Fin rs. term_value r a)"
    by (rule term_sum_pos)
  then show "\<exists>v. resonance_potential (Scalar r) n_vals = Inr v \<and> 0 < v \<and> v \<le> real (length n_vals)"
    using resonance_potential_Scalar [OF rs(1), of r] term_sum_le_length [of r "map Fin rs"] rs(2)
    by simp
qed

theorem resonance_potential_range_witness:
  "(\<exists>v. resonance_potential (Scalar 0) [3, 5, 7] = Inr v \<and> 0 < v \<and> v \<le> 3)
   \<and> (\<exists>v. resonance_potential (Scalar (10 ^ 200)) [3, 3330] = Inr v \<and> 0 \<le> v \<and> v \<le> 2)"
  using resonance_potential_range [of 0 "[3, 5, 7]"]
    resonance_potential_range [of "10 ^ 200" "[3, 3330]"] INT_LIMIT_big
  by simp

section \<open>Properties of the drift dynamics\<close>

lemma true_div_two: "true_div x (Fin (2 * 1.0)) = Inr (x / 2)"
  by (simp add: true_div_def)

lemma drift_acceleration_state:
  assumes "collect (map com_lz_attractor_radius n_vals) = Inr ras"
  shows "drift_acceleration [p, v] t n_vals =
     Inr [v,
          - (((\<Sum>a\<leftarrow>ras. \<Sum>x\<leftarrow>[p + 1, v + 1]. term_value x a)
              - (\<Sum>a\<leftarrow>ras. \<Sum>x\<leftarrow>[p - 1, v - 1]. term_value x a)) / 2)
          + - 0.1 * v]"
  by (simp add: drift_acceleration_def resonance_potential_Array [OF assms] true_div_def)

lemma drift_acceleration_returns:
  assumes "collect (map com_lz_attractor_radius n_vals) = Inr ras" and "length y = 2"
  shows "\<exists>dy. drift_acceleration y t n_vals = Inr dy \<and> length dy = 2"
proof -
  obtain p v where "y = [p, v]"
    using assms(2) by (metis (no_types) Suc_length_conv length_0_conv numeral_2_eq_2)
  then show ?thesis
    by (simp add: drift_acceleration_state [OF assms(1)])
qed

text \<open>
  Claim C1 at the state \<open>[radius 9, 0]\<close> with the single attractor \<open>9\<close>: a particle at rest
  on the attractor. The central difference of the potential at the position alone is
  \<open>0\<close> there, so the claimed acceleration is \<open>0\<close>. The source's gradient also holds the
  potential at \<open>velocity + 1\<close> and \<open>velocity - 1\<close>, and the acceleration it returns differs.
\<close>

theorem drift_acceleration_reads_velocity:
  "\<exists>R pot_plus pot_minus a.
     com_lz_attractor_radius 9 = Inr (Fin R)
     \<and> resonance_potential (Scalar (R + 1)) [9] = Inr pot_plus
     \<and> resonance_potential (Scalar (R - 1)) [9] = Inr pot_minus
     \<and> drift_acceleration [R, 0] 0 [9] = Inr [0, a]
     \<and> a \<noteq> - ((pot_plus - pot_minus) / 2) + - 0.1 * 0"
proof -
  let ?R = "radius_value 9"
  have R: "com_lz_attractor_radius 9 = Inr (Fin ?R)"
    by (rule com_lz_attractor_radius_finite) simp_all
  have radii: "collect (map com_lz_attractor_radius [9]) = Inr [Fin ?R]"
    using R by simp
  have lo: "5000 \<le> ?R"
    by (rule radius_value_ge) simp
  have hi: "?R \<le> 10 ^ 110"
    by (rule radius_value_moderate) simp
  have one: "(1 :: real) \<le> DBL_MAX"
    using DBL_MAX_gt_1 by simp
  have t1: "term_value (?R + 1) (Fin ?R) = bump (?R + 1) ?R"
    using one by (intro term_value_bump) simp
  have t2: "term_value (?R - 1) (Fin ?R) = bump (?R - 1) ?R"
    using one by (intro term_value_bump) simp
  have t3: "term_value 1 (Fin ?R) = bump 1 ?R"
    using lo hi by (intro term_value_bump moderate_square) simp_all
  have t4: "term_value (- 1) (Fin ?R) = bump (- 1) ?R"
    using lo hi by (intro term_value_bump moderate_square) simp_all
  have "\<bar>1 - ?R\<bar> < \<bar>- 1 - ?R\<bar>"
    using lo by linarith
  then have less: "bump (- 1) ?R < bump 1 ?R"
    by (simp only: bump_less_iff)
  have sym: "bump (?R + 1) ?R = bump (?R - 1) ?R"
    by (simp add: bump_def)
  have acc: "drift_acceleration [?R, 0] 0 [9]
          = Inr [0, - (((bump (?R + 1) ?R + bump 1 ?R) - (bump (?R - 1) ?R + bump (- 1) ?R)) / 2)]"
    by (simp add: drift_acceleration_state [OF radii] t1 t2 t3 t4)
  have ne: "- (((bump (?R + 1) ?R + bump 1 ?R) - (bump (?R - 1) ?R + bump (- 1) ?R)) / 2)
                   \<noteq> - ((bump (?R + 1) ?R - bump (?R - 1) ?R) / 2) + - 0.1 * 0"
    using less sym by simp
  have plus: "resonance_potential (Scalar (?R + 1)) [9] = Inr (bump (?R + 1) ?R)"
    by (simp add: resonance_potential_single [OF R] t1)
  have minus: "resonance_potential (Scalar (?R - 1)) [9] = Inr (bump (?R - 1) ?R)"
    by (simp add: resonance_potential_single [OF R] t2)
  show ?thesis
    using R plus minus acc ne by blast
qed

section \<open>Properties of the trajectory simulator\<close>

subsection \<open>The time grid\<close>

lemma linspace_Inr:
  "2 \<le> num \<Longrightarrow>
   linspace start stop num =
     Inr ((map (\<lambda>j. real j * ((stop - start) / real_of_int (num - 1)) + start) [0..<nat num])
            [nat num - 1 := stop])"
  by (simp add: linspace_def Let_def comp_def)

lemma linspace_0: "linspace start stop 0 = Inr []"
  by (simp add: linspace_def)

lemma linspace_1: "linspace start stop 1 = Inr [start]"
  by (simp add: linspace_def)

lemma linspace_length:
  assumes "linspace start stop num = Inr t"
  shows "length t = nat num"
proof -
  consider "num < 0" | "num = 0" | "num = 1" | "2 \<le> num"
    by linarith
  then show ?thesis
  proof cases
    case 1
    then show ?thesis using assms by (simp add: linspace_def)
  next
    case 2
    then show ?thesis using assms by (auto simp: linspace_0)
  next
    case 3
    then show ?thesis using assms by (auto simp: linspace_1)
  next
    case 4
    then show ?thesis using assms by (auto simp: linspace_Inr)
  qed
qed

lemma linspace_nth:
  assumes "linspace start stop num = Inr t" and "j < nat num" and "2 \<le> num"
  shows "t ! j = start + real j * (stop - start) / real_of_int (num - 1)"
proof -
  have t: "t = (map (\<lambda>j. real j * ((stop - start) / real_of_int (num - 1)) + start) [0..<nat num])
            [nat num - 1 := stop]"
    using assms(1) by (simp add: linspace_Inr [OF assms(3)])
  show ?thesis
  proof (cases "j = nat num - 1")
    case True
    have "real (nat num - 1) = real_of_int (num - 1)"
      using assms(3) by (simp add: of_nat_diff)
    moreover have "real_of_int (num - 1) \<noteq> 0"
      using assms(3) by simp
    ultimately have "start + real j * (stop - start) / real_of_int (num - 1) = stop"
      using True by simp
    moreover have "t ! j = stop"
      using True assms(2) by (simp add: t)
    ultimately show ?thesis by simp
  next
    case False
    then show ?thesis
      using assms(2) by (simp add: t)
  qed
qed

lemma linspace_sorted:
  assumes "linspace start stop num = Inr t" and "start \<le> stop"
  shows "sorted t"
proof (cases "2 \<le> num")
  case True
  have pos: "0 < real_of_int (num - 1)" using True by simp
  have len: "length t = nat num" using assms(1) by (rule linspace_length)
  show ?thesis
    unfolding sorted_iff_nth_mono
  proof (intro allI impI)
    fix i j
    assume ij: "i \<le> j" and j: "j < length t"
    then have "real i * (stop - start) \<le> real j * (stop - start)"
      using assms(2) by (intro mult_right_mono) simp_all
    then have "real i * (stop - start) / real_of_int (num - 1)
                 \<le> real j * (stop - start) / real_of_int (num - 1)"
      using pos by (simp add: divide_right_mono)
    then show "t ! i \<le> t ! j"
      using ij j len True assms(1) by (simp add: linspace_nth [where num = num])
  qed
next
  case False
  have "length t = nat num" using assms(1) by (rule linspace_length)
  then have "length t \<le> 1" using False by simp
  then show ?thesis
    by (cases t) (auto simp: Suc_le_eq)
qed

subsection \<open>Iteration over particles and samples\<close>

lemma append_samples_eq:
  "append_samples i t sol js s =
     (if rows_ok sol js then Inr (s\<lparr>results := results s @ sample_rows i t sol js\<rparr>)
      else Inl IndexError)"
  by (induction js arbitrary: s) (simp_all add: rows_ok_def sample_rows_def)

lemma simulate_particles_eq:
  "simulate_particles odeint t ps s =
     (case collect (map (particle_rows odeint t (n_vals_of s)) ps) of
        Inl e \<Rightarrow> Inl e
      | Inr rss \<Rightarrow> Inr (s\<lparr>results := results s @ concat rss\<rparr>))"
proof (induction ps arbitrary: s)
  case Nil
  show ?case by simp
next
  case (Cons p ps)
  obtain i r0 where p: "p = (i, r0)" by (cases p)
  show ?case
    by (simp add: p Cons.IH particle_rows_def append_samples_eq Let_def
        split: sum.splits)
qed

lemma collect_all_Inr:
  "(\<And>k. k < length xs \<Longrightarrow> xs ! k = Inr (f k)) \<Longrightarrow> collect xs = Inr (map f [0..<length xs])"
proof (induction xs arbitrary: f)
  case Nil
  show ?case by simp
next
  case (Cons x xs)
  have x: "x = Inr (f 0)"
    using Cons.prems [of 0] by simp
  have "collect xs = Inr (map (\<lambda>k. f (Suc k)) [0..<length xs])"
    using Cons.prems by (intro Cons.IH) fastforce
  then show ?case
    by (simp add: x upt_conv_Cons map_Suc_upt [symmetric] comp_def del: upt_Suc)
qed

lemma particle_rows_label:
  "particle_rows odeint t n_vals (i, r0) = Inr rows \<Longrightarrow> r \<in> set rows \<Longrightarrow> particle r = i"
  by (auto simp: particle_rows_def sample_rows_def split: sum.splits if_splits)


lemma filter_concat_labelled:
  assumes "\<And>k r. k < length rss \<Longrightarrow> r \<in> set (rss ! k) \<Longrightarrow> f r = k" and "i < length rss"
  shows "filter (\<lambda>r. f r = i) (concat rss) = rss ! i"
  using assms
proof (induction rss arbitrary: i rule: rev_induct)
  case Nil
  then show ?case by simp
next
  case (snoc x rss)
  have lab: "\<And>k r. k < length rss \<Longrightarrow> r \<in> set (rss ! k) \<Longrightarrow> f r = k"
    using snoc.prems(1) [of _ _] by (metis length_append_singleton less_Suc_eq nth_append)
  have last: "\<And>r. r \<in> set x \<Longrightarrow> f r = length rss"
    using snoc.prems(1) [of "length rss"] by simp
  show ?case
  proof (cases "i < length rss")
    case True
    have "filter (\<lambda>r. f r = i) x = []"
      using last True by (auto simp: filter_empty_conv)
    then show ?thesis
      using True snoc.IH [OF lab True] by (simp add: nth_append)
  next
    case False
    then have i: "i = length rss"
      using snoc.prems(2) by simp
    have "f r < length rss" if "r \<in> set (concat rss)" for r
    proof -
      from that obtain xs where "xs \<in> set rss" and r: "r \<in> set xs"
        by auto
      then obtain k where k: "k < length rss" and "rss ! k = xs"
        by (auto simp: in_set_conv_nth)
      with r have "f r = k"
        using lab by blast
      with k show ?thesis by simp
    qed
    then have "\<And>r. r \<in> set (concat rss) \<Longrightarrow> f r \<noteq> i"
      using i by fastforce
    then have "filter (\<lambda>r. f r = i) (concat rss) = []"
      unfolding filter_empty_conv by blast
    moreover have "filter (\<lambda>r. f r = i) x = x"
      using last i by (auto simp: filter_id_conv)
    ultimately show ?thesis
      using i by simp
  qed
qed

subsection \<open>The integrator\<close>

lemma euler_odeint_shape:
  "(\<And>y s. length y = n \<Longrightarrow> \<exists>dy. f y s = Inr dy \<and> length dy = n) \<Longrightarrow> length y = n \<Longrightarrow>
   \<exists>sol. euler_odeint f y t = Inr sol \<and> length sol = length t
         \<and> (t \<noteq> [] \<longrightarrow> sol ! 0 = y) \<and> (\<forall>row \<in> set sol. length row = n)"
proof (induction f y t rule: euler_odeint.induct)
  case (1 f y)
  show ?case by simp
next
  case (2 f y t0)
  then show ?case by simp
next
  case (3 f y t0 t1 ts)
  obtain dy where dy: "f y t0 = Inr dy" and len: "length dy = n"
    using "3.prems" by blast
  have "length (map2 (\<lambda>a b. a + (t1 - t0) * b) y dy) = n"
    using len "3.prems"(2) by simp
  then obtain sol where sol: "euler_odeint f (map2 (\<lambda>a b. a + (t1 - t0) * b) y dy) (t1 # ts) = Inr sol"
      and "length sol = length (t1 # ts)" and "\<forall>row \<in> set sol. length row = n"
    using "3.IH" [OF dy "3.prems"(1)] by blast
  then show ?case
    using dy "3.prems"(2) by simp
qed

lemma euler_odeint_contract: "odeint_contract euler_odeint"
  unfolding odeint_contract_def
proof (intro allI impI)
  fix f :: rhs and y0 t :: "real list"
  assume a: "t \<noteq> [] \<and> (sorted t \<or> sorted (rev t)) \<and>
    (\<forall>y s. length y = length y0 \<longrightarrow> (\<exists>dy. f y s = Inr dy \<and> length dy = length y0))"
  then have f: "\<And>y s. length y = length y0 \<Longrightarrow> \<exists>dy. f y s = Inr dy \<and> length dy = length y0"
    by blast
  from a have ne: "t \<noteq> []"
    by blast
  obtain sol where sol: "euler_odeint f y0 t = Inr sol" and len: "length sol = length t"
      and first: "t \<noteq> [] \<longrightarrow> sol ! 0 = y0" and rows: "\<forall>row \<in> set sol. length row = length y0"
    using euler_odeint_shape [of "length y0" f y0 t, OF f refl] by blast
  have "\<forall>j<length t. length (sol ! j) = length y0"
    using rows len by simp
  with sol len first ne
  show "\<exists>sol. euler_odeint f y0 t = Inr sol \<and> length sol = length t \<and> sol ! 0 = y0 \<and>
                 (\<forall>j<length t. length (sol ! j) = length y0)"
    by blast
qed

lemma particle_rows_contract:
  assumes "odeint_contract odeint" and "t \<noteq> []" and "sorted t \<or> sorted (rev t)"
    and "collect (map com_lz_attractor_radius n_vals) = Inr ras"
  shows "\<exists>sol. length sol = length t \<and> sol ! 0 = [r0, 0] \<and> (\<forall>j<length t. length (sol ! j) = 2)
           \<and> particle_rows odeint t n_vals (i, r0) = Inr (sample_rows i t sol [0..<length t])"
proof -
  let ?f = "\<lambda>y tt. drift_acceleration y tt n_vals"
  have two: "length [r0, 0 :: real] = 2"
    by simp
  have rhs: "\<forall>y s. length y = length [r0, 0 :: real] \<longrightarrow>
          (\<exists>dy. ?f y s = Inr dy \<and> length dy = length [r0, 0 :: real])"
    unfolding two using drift_acceleration_returns [OF assms(4)] by blast
  have "\<exists>sol. odeint ?f [r0, 0] t = Inr sol \<and> length sol = length t \<and> sol ! 0 = [r0, 0] \<and>
                 (\<forall>j<length t. length (sol ! j) = length [r0, 0 :: real])"
    using assms(1) [unfolded odeint_contract_def, THEN spec [where x = "?f"],
        THEN spec [where x = "[r0, 0]"], THEN spec [where x = t]] assms(2,3) rhs
    by (elim impE) (intro conjI, assumption+)
  then obtain sol where sol: "odeint ?f [r0, 0] t = Inr sol" and len: "length sol = length t"
      and first: "sol ! 0 = [r0, 0]" and rows: "\<forall>j<length t. length (sol ! j) = 2"
    unfolding two by blast
  have "rows_ok sol [0..<length t]"
    using len rows by (simp add: rows_ok_def list_all_iff)
  then have "particle_rows odeint t n_vals (i, r0) = Inr (sample_rows i t sol [0..<length t])"
    using sol by (simp add: particle_rows_def)
  with len first rows show ?thesis
    by blast
qed


lemma linspace_returns: "0 \<le> num \<Longrightarrow> \<exists>t. linspace start stop num = Inr t"
  by (simp add: linspace_def Let_def)

lemma simulate_store_eq:
  "linspace 0 t_span num_points = Inr t \<Longrightarrow>
   simulate_store odeint initial_radii n_vals t_span num_points =
     (case collect (map (particle_rows odeint t n_vals) (enumerate 0 initial_radii)) of
        Inl e \<Rightarrow> Inl e
      | Inr rss \<Rightarrow> Inr \<lparr>n_vals_of = n_vals, results = concat rss\<rparr>)"
  by (simp add: simulate_store_def simulate_particles_eq split: sum.splits)


lemma sample_rows_length: "length (sample_rows i t sol [0..<n]) = n"
  by (simp add: sample_rows_def)

lemma sample_rows_nth:
  "j < n \<Longrightarrow> sample_rows i t sol [0..<n] ! j =
     \<lparr>particle = i, time = t ! j, radius = sol ! j ! 0, velocity = sol ! j ! 1\<rparr>"
  by (simp add: sample_rows_def)

lemma sample_rows_time: "map time (sample_rows i t sol [0..<length t]) = t"
  by (simp add: sample_rows_def comp_def map_nth)

lemma sample_rows_particle: "r \<in> set (sample_rows i t sol js) \<Longrightarrow> particle r = i"
  by (auto simp: sample_rows_def)

lemma particle_rows_time:
  "particle_rows odeint t n_vals p = Inr rows \<Longrightarrow> map time rows = t"
  by (auto simp: particle_rows_def sample_rows_time split: sum.splits if_splits)

lemma simulate_debris_drift_eq:
  "linspace 0 t_span num_points = Inr t \<Longrightarrow>
   simulate_debris_drift odeint initial_radii n_vals t_span num_points =
     (case collect (map (particle_rows odeint t n_vals) (enumerate 0 initial_radii)) of
        Inl e \<Rightarrow> Inl e
      | Inr rss \<Rightarrow> Inr (concat rss))"
  by (simp add: simulate_debris_drift_def simulate_store_eq split: sum.splits)

lemma simulate_debris_drift_grid_exists:
  "simulate_debris_drift odeint initial_radii n_vals t_span num_points = Inr df \<Longrightarrow>
   \<exists>t. linspace 0 t_span num_points = Inr t"
  by (cases "linspace 0 t_span num_points")
    (simp_all add: simulate_debris_drift_def simulate_store_def)

lemma simulate_debris_drift_single:
  "linspace 0 t_span num_points = Inr t \<Longrightarrow>
   simulate_debris_drift odeint [r0] n_vals t_span num_points = particle_rows odeint t n_vals (0, r0)"
  by (simp add: simulate_debris_drift_eq split: sum.splits)

lemma simulate_debris_drift_rows:
  assumes run: "simulate_debris_drift odeint initial_radii n_vals t_span num_points = Inr df"
    and i: "i < length initial_radii"
  shows "\<exists>t. linspace 0 t_span num_points = Inr t
           \<and> particle_rows odeint t n_vals (i, initial_radii ! i)
                = Inr (filter (\<lambda>r. particle r = i) df)"
proof -
  obtain t where t: "linspace 0 t_span num_points = Inr t"
    using simulate_debris_drift_grid_exists [OF run] by blast
  let ?xs = "map (particle_rows odeint t n_vals) (enumerate 0 initial_radii)"
  obtain rss where rss: "collect ?xs = Inr rss" and df: "df = concat rss"
    using run by (auto simp: simulate_debris_drift_eq [OF t] split: sum.splits)
  have len: "length rss = length initial_radii"
    using collect_Inr_length [OF rss] by simp
  have nth: "particle_rows odeint t n_vals (k, initial_radii ! k) = Inr (rss ! k)"
    if "k < length initial_radii" for k
    using collect_Inr_nth [OF rss, of k] that by (simp add: nth_enumerate_eq)
  have "particle r = k" if "k < length rss" and "r \<in> set (rss ! k)" for k r
    using particle_rows_label [OF nth] that len by simp
  then have "filter (\<lambda>r. particle r = i) (concat rss) = rss ! i"
    using i len by (intro filter_concat_labelled) simp_all
  then show ?thesis
    using t nth [OF i] df by simp
qed

text \<open>
  Claim C3. With an integrator that meets its contract, the call with the single initial
  radius \<^verbatim>\<open>radius(2) * 1.2\<close>, the indices 3, 5, 7, time span 100 and 1000 points returns a
  table of exactly 1000 rows, all of particle 0, whose times are the grid, in ascending
  order; the first row has time 0, the initial radius and velocity 0, the last row has time
  100. The grid is uniform: its entry \<open>j\<close> is \<open>j * 100 / 999\<close>, up to the rounding of the
  doubles, for which a tolerance of \<open>10^-9\<close> is left. In general, for at least two points,
  the times of every particle of a run that returns are the grid from 0 to the time span,
  with entry \<open>j\<close> at \<open>j * t_span / (num_points - 1)\<close> up to \<open>(1 + \<bar>t_span\<bar>) * 10^-9\<close>.
\<close>

theorem simulate_debris_drift_grid:
  assumes "odeint_contract odeint"
  shows "(\<exists>R df t. com_lz_attractor_radius 2 = Inr (Fin R)
            \<and> simulate_debris_drift odeint [R * 1.2] [3, 5, 7] 100 1000 = Inr df
            \<and> linspace 0 100 1000 = Inr t
            \<and> length t = 1000 \<and> (\<forall>j<1000. \<bar>t ! j - real j * 100 / 999\<bar> \<le> 1 / 10 ^ 9)
            \<and> sorted t \<and> t ! 0 = 0 \<and> t ! 999 = 100
            \<and> length df = 1000 \<and> (\<forall>r \<in> set df. particle r = 0) \<and> map time df = t
            \<and> time (df ! 0) = 0 \<and> radius (df ! 0) = R * 1.2
            \<and> velocity (df ! 0) = 0 \<and> time (df ! 999) = 100)
         \<and> (2 \<le> num_points
              \<and> simulate_debris_drift odeint initial_radii n_vals t_span num_points = Inr df'
              \<and> i < length initial_radii
            \<longrightarrow> (\<exists>g. linspace 0 t_span num_points = Inr g
                   \<and> length g = nat num_points
                   \<and> g ! 0 = 0 \<and> g ! (nat num_points - 1) = t_span
                   \<and> (\<forall>j<nat num_points.
                         \<bar>g ! j - real j * t_span / real_of_int (num_points - 1)\<bar>
                           \<le> (1 + \<bar>t_span\<bar>) / 10 ^ 9)
                   \<and> map time (filter (\<lambda>r. particle r = i) df') = g))"
proof -
  obtain R where R: "com_lz_attractor_radius 2 = Inr (Fin R)"
    using com_lz_attractor_radius_returns_finite [of 2] INT_LIMIT_big by auto
  let ?r0 = "R * 1.2"
  obtain ras where ras: "collect (map com_lz_attractor_radius [3, 5, 7]) = Inr ras"
    using collect_radii_returns [of "[3, 5, 7]"] INT_LIMIT_big by auto
  obtain t where t: "linspace 0 100 1000 = Inr t"
    using linspace_returns [of 1000 0 100] by auto
  have len_t: "length t = 1000"
    using linspace_length [OF t] by simp
  have nth_t: "t ! j = real j * 100 / 999" if "j < 1000" for j
    using linspace_nth [OF t, of j] that by simp
  have sorted_t: "sorted t"
    using linspace_sorted [OF t] by simp
  have ne: "t \<noteq> []"
    using len_t by auto
  obtain sol where sol_len: "length sol = length t" and first: "sol ! 0 = [?r0, 0]"
      and rows: "particle_rows odeint t [3, 5, 7] (0, ?r0) = Inr (sample_rows 0 t sol [0..<length t])"
    using particle_rows_contract [OF assms ne _ ras, of ?r0 0] sorted_t by blast
  let ?df = "sample_rows 0 t sol [0..<length t]"
  have run: "simulate_debris_drift odeint [?r0] [3, 5, 7] 100 1000 = Inr ?df"
    using rows by (simp add: simulate_debris_drift_single [OF t])
  have len_df: "length ?df = 1000"
    using len_t by (simp add: sample_rows_length)
  have label: "\<forall>r \<in> set ?df. particle r = 0"
    using sample_rows_particle by blast
  have times: "map time ?df = t"
    by (rule sample_rows_time)
  have df0: "?df ! 0 = \<lparr>particle = 0, time = t ! 0, radius = sol ! 0 ! 0, velocity = sol ! 0 ! 1\<rparr>"
    using len_t by (simp add: sample_rows_nth)
  have df999: "?df ! 999 = \<lparr>particle = 0, time = t ! 999, radius = sol ! 999 ! 0, velocity = sol ! 999 ! 1\<rparr>"
    using len_t by (simp add: sample_rows_nth)
  have t0: "t ! 0 = 0"
    using nth_t [of 0] by simp
  have t999: "t ! 999 = 100"
    using nth_t [of 999] by simp
  have call: "\<exists>R df t. com_lz_attractor_radius 2 = Inr (Fin R)
            \<and> simulate_debris_drift odeint [R * 1.2] [3, 5, 7] 100 1000 = Inr df
            \<and> linspace 0 100 1000 = Inr t
            \<and> length t = 1000 \<and> (\<forall>j<1000. \<bar>t ! j - real j * 100 / 999\<bar> \<le> 1 / 10 ^ 9)
            \<and> sorted t \<and> t ! 0 = 0 \<and> t ! 999 = 100
            \<and> length df = 1000 \<and> (\<forall>r \<in> set df. particle r = 0) \<and> map time df = t
            \<and> time (df ! 0) = 0 \<and> radius (df ! 0) = R * 1.2
            \<and> velocity (df ! 0) = 0 \<and> time (df ! 999) = 100"
  proof (intro exI [of _ R] exI [of _ ?df] exI [of _ t] conjI)
    show "\<forall>j<1000. \<bar>t ! j - real j * 100 / 999\<bar> \<le> 1 / 10 ^ 9"
    proof (intro allI impI)
      fix j :: nat
      assume "j < 1000"
      then have e: "t ! j = real j * 100 / 999"
        by (rule nth_t)
      show "\<bar>t ! j - real j * 100 / 999\<bar> \<le> 1 / 10 ^ 9"
        unfolding e by simp
    qed
    show "time (?df ! 0) = 0" "radius (?df ! 0) = ?r0" "velocity (?df ! 0) = 0"
      using t0 first by (simp_all add: df0)
    show "time (?df ! 999) = 100"
      using t999 by (simp add: df999)
  qed (fact R run t len_t sorted_t t0 t999 len_df label times)+
  have grid: "\<exists>g. linspace 0 t_span num_points = Inr g
                   \<and> length g = nat num_points
                   \<and> g ! 0 = 0 \<and> g ! (nat num_points - 1) = t_span
                   \<and> (\<forall>j<nat num_points.
                         \<bar>g ! j - real j * t_span / real_of_int (num_points - 1)\<bar>
                           \<le> (1 + \<bar>t_span\<bar>) / 10 ^ 9)
                   \<and> map time (filter (\<lambda>r. particle r = i) df') = g"
    if n: "2 \<le> num_points"
      and r: "simulate_debris_drift odeint initial_radii n_vals t_span num_points = Inr df'"
      and i: "i < length initial_radii"
  proof -
    obtain g where g: "linspace 0 t_span num_points = Inr g"
        and p: "particle_rows odeint g n_vals (i, initial_radii ! i)
                  = Inr (filter (\<lambda>r. particle r = i) df')"
      using simulate_debris_drift_rows [OF r i] by blast
    have nth_g: "g ! j = real j * t_span / real_of_int (num_points - 1)" if "j < nat num_points" for j
      using linspace_nth [OF g that n] by simp
    have "\<forall>j<nat num_points.
            \<bar>g ! j - real j * t_span / real_of_int (num_points - 1)\<bar> \<le> (1 + \<bar>t_span\<bar>) / 10 ^ 9"
      using nth_g by simp
    moreover have "g ! 0 = 0"
      using nth_g [of 0] n by simp
    moreover have "g ! (nat num_points - 1) = t_span"
    proof -
      have "real (nat num_points - 1) = real_of_int (num_points - 1)"
        using n by (simp add: of_nat_diff)
      then show ?thesis
        using nth_g [of "nat num_points - 1"] n by simp
    qed
    ultimately show ?thesis
      using g linspace_length [OF g] particle_rows_time [OF p] by blast
  qed
  show ?thesis
    using call grid by blast
qed

theorem simulate_debris_drift_grid_witness:
  "\<exists>R df. com_lz_attractor_radius 2 = Inr (Fin R)
        \<and> simulate_debris_drift euler_odeint [R * 1.2] [3, 5, 7] 100 1000 = Inr df
        \<and> length df = 1000
        \<and> time (df ! 0) = 0 \<and> radius (df ! 0) = R * 1.2
        \<and> velocity (df ! 0) = 0 \<and> time (df ! 999) = 100"
  using simulate_debris_drift_grid [OF euler_odeint_contract] by blast




end
